theory Spec2Isabelle
  imports Complex_Main "HOL-Library.Char_ord" "HOL-Library.List_Lexorder"
begin

section \<open>Python strings\<close>

text \<open>
  A Python \<^verbatim>\<open>str\<close> is modelled as a \<^typ>\<open>string\<close> whose characters are ASCII code
  points. The character classes below are the ASCII part of what \<^verbatim>\<open>str.isspace\<close>,
  \<^verbatim>\<open>str.splitlines\<close>, \<^verbatim>\<open>str.upper\<close>, \<^verbatim>\<open>str.lower\<close> and the \<^verbatim>\<open>re\<close> classes
  \<^verbatim>\<open>\s\<close> and \<^verbatim>\<open>\w\<close> use; statements about arbitrary inputs carry the hypothesis
  \<open>is_ascii\<close>.
\<close>

definition is_ascii :: "string \<Rightarrow> bool" where
  "is_ascii s = list_all (\<lambda>c. \<not> digit7 c) s"

definition lowers :: string where
  "lowers = ''abcdefghijklmnopqrstuvwxyz''"

definition uppers :: string where
  "uppers = ''ABCDEFGHIJKLMNOPQRSTUVWXYZ''"

definition digits :: string where
  "digits = ''0123456789''"

text \<open>\<^verbatim>\<open>str.isspace\<close> and \<^verbatim>\<open>\s\<close>: TAB, LF, VT, FF, CR, FS, GS, RS, US and the space.\<close>

definition is_space :: "char \<Rightarrow> bool" where
  "is_space c = (c \<in> set [CHR 0x09, CHR 0x0A, CHR 0x0B, CHR 0x0C, CHR 0x0D,
                          CHR 0x1C, CHR 0x1D, CHR 0x1E, CHR 0x1F, CHR 0x20])"

text \<open>The line boundaries of \<^verbatim>\<open>str.splitlines\<close>: LF, VT, FF, CR, FS, GS, RS.\<close>

definition is_linebreak :: "char \<Rightarrow> bool" where
  "is_linebreak c = (c \<in> set [CHR 0x0A, CHR 0x0B, CHR 0x0C, CHR 0x0D, CHR 0x1C, CHR 0x1D, CHR 0x1E])"

text \<open>\<^verbatim>\<open>\w\<close>: letters, digits and the underscore.\<close>

definition is_word :: "char \<Rightarrow> bool" where
  "is_word c = (c \<in> set (lowers @ uppers @ digits @ ''_''))"

definition py_upper_char :: "char \<Rightarrow> char" where
  "py_upper_char c = (case map_of (zip lowers uppers) c of None \<Rightarrow> c | Some u \<Rightarrow> u)"

definition py_lower_char :: "char \<Rightarrow> char" where
  "py_lower_char c = (case map_of (zip uppers lowers) c of None \<Rightarrow> c | Some l \<Rightarrow> l)"

definition py_upper :: "string \<Rightarrow> string" where
  "py_upper s = map py_upper_char s"

definition py_lower :: "string \<Rightarrow> string" where
  "py_lower s = map py_lower_char s"

text \<open>\<^verbatim>\<open>s.lstrip(chars)\<close>, \<^verbatim>\<open>s.strip(chars)\<close> and \<^verbatim>\<open>s.strip()\<close>.\<close>

definition py_lstrip_chars :: "string \<Rightarrow> string \<Rightarrow> string" where
  "py_lstrip_chars chars s = dropWhile (\<lambda>c. c \<in> set chars) s"

definition py_strip_chars :: "string \<Rightarrow> string \<Rightarrow> string" where
  "py_strip_chars chars s =
     rev (dropWhile (\<lambda>c. c \<in> set chars) (rev (dropWhile (\<lambda>c. c \<in> set chars) s)))"

definition py_strip :: "string \<Rightarrow> string" where
  "py_strip s = rev (dropWhile is_space (rev (dropWhile is_space s)))"

definition py_startswith :: "string \<Rightarrow> string \<Rightarrow> bool" where
  "py_startswith p s = (take (length p) s = p)"

text \<open>
  \<^verbatim>\<open>s.splitlines()\<close>: the lines without their boundaries; CR LF is one boundary, and a
  boundary at the very end opens no further line. \<open>cur\<close> is the current line, reversed.
\<close>

fun splitlines_from :: "string \<Rightarrow> string \<Rightarrow> string list" where
  "splitlines_from cur [] = (if cur = [] then [] else [rev cur])"
| "splitlines_from cur (c # cs) =
     (if is_linebreak c
      then rev cur # splitlines_from []
             (if c = CHR 0x0D \<and> take 1 cs = [CHR 0x0A] then drop 1 cs else cs)
      else splitlines_from (c # cur) cs)"

definition py_splitlines :: "string \<Rightarrow> string list" where
  "py_splitlines s = splitlines_from [] s"

text \<open>\<^verbatim>\<open>s.split(sep)\<close> for a one-character separator: never the empty list.\<close>

fun py_split :: "char \<Rightarrow> string \<Rightarrow> string list" where
  "py_split sep [] = [[]]"
| "py_split sep (c # cs) =
     (if c = sep then [] # py_split sep cs
      else (case py_split sep cs of [] \<Rightarrow> [[c]] | x # xs \<Rightarrow> (c # x) # xs))"

text \<open>\<^verbatim>\<open>sep.join(xs)\<close>.\<close>

fun py_join :: "string \<Rightarrow> string list \<Rightarrow> string" where
  "py_join sep [] = []"
| "py_join sep [x] = x"
| "py_join sep (x # y # ys) = x @ sep @ py_join sep (y # ys)"

section \<open>Regular expressions of the validator\<close>

text \<open>
  \<^verbatim>\<open>\b\<close> holds between two neighbouring positions when exactly one of them is a word
  character; the outside of the string counts as a non-word character.
\<close>

fun is_word_opt :: "char option \<Rightarrow> bool" where
  "is_word_opt None = False"
| "is_word_opt (Some c) = is_word c"

definition head_opt :: "string \<Rightarrow> char option" where
  "head_opt s = (case s of [] \<Rightarrow> None | c # _ \<Rightarrow> Some c)"

definition word_boundary :: "char option \<Rightarrow> char option \<Rightarrow> bool" where
  "word_boundary a b = (is_word_opt a \<noteq> is_word_opt b)"

text \<open>
  \<^verbatim>\<open>re.search(rf"\b{keyword}\b", s)\<close> for a keyword of plain letters: a match of the
  pattern at the current position (\<open>prev\<close> is the character before it), or further right.
\<close>

definition match_word_here :: "char option \<Rightarrow> string \<Rightarrow> string \<Rightarrow> bool" where
  "match_word_here prev kw s =
     (word_boundary prev (head_opt s) \<and> take (length kw) s = kw \<and>
      word_boundary (if kw = [] then prev else Some (last kw)) (head_opt (drop (length kw) s)))"

fun re_search_word_from :: "char option \<Rightarrow> string \<Rightarrow> string \<Rightarrow> bool" where
  "re_search_word_from prev kw [] = match_word_here prev kw []"
| "re_search_word_from prev kw (c # cs) =
     (match_word_here prev kw (c # cs) \<or> re_search_word_from (Some c) kw cs)"

definition re_search_word :: "string \<Rightarrow> string \<Rightarrow> bool" where
  "re_search_word kw s = re_search_word_from None kw s"

text \<open>
  \<^verbatim>\<open>re.compile(r"\bFROM\s+([\w\".]+)|\bJOIN\s+([\w\".]+)", re.IGNORECASE)\<close>. One alternative
  at one position: the word boundary, the literal in either case, the longest run of
  whitespace (at least one character), then the longest run of \<^verbatim>\<open>[\w".]\<close> (at least one
  character), which is the group. The two classes are disjoint, so backtracking finds
  nothing the greedy match does not. The result is the group and the length of the match.
\<close>

definition is_ref_char :: "char \<Rightarrow> bool" where
  "is_ref_char c = (is_word c \<or> c = CHR 0x22 \<or> c = CHR ''.'')"

definition ci_prefix :: "string \<Rightarrow> string \<Rightarrow> bool" where
  "ci_prefix lit s = (map py_lower_char (take (length lit) s) = map py_lower_char lit)"

definition match_alt :: "string \<Rightarrow> char option \<Rightarrow> string \<Rightarrow> (string \<times> nat) option" where
  "match_alt lit prev s =
     (if word_boundary prev (head_opt s) \<and> ci_prefix lit s
      then (let r1 = drop (length lit) s;
                ws = takeWhile is_space r1;
                r2 = dropWhile is_space r1;
                g = takeWhile is_ref_char r2
            in if ws = [] \<or> g = [] then None
               else Some (g, length lit + length ws + length g))
      else None)"

definition match_from_pattern :: "char option \<Rightarrow> string \<Rightarrow> (string \<times> nat) option" where
  "match_from_pattern prev s =
     (case match_alt ''FROM'' prev s of
        Some m \<Rightarrow> Some m
      | None \<Rightarrow> match_alt ''JOIN'' prev s)"

text \<open>
  \<^verbatim>\<open>from_pattern.finditer(sql)\<close>, as the list of \<^verbatim>\<open>match.group(1) or match.group(2)\<close>:
  the scan goes left to right and resumes at the end of each match (a match has at
  least six characters).
\<close>

function from_pattern_finditer_from :: "char option \<Rightarrow> string \<Rightarrow> string list" where
  "from_pattern_finditer_from prev [] = []"
| "from_pattern_finditer_from prev (c # cs) =
     (case match_from_pattern prev (c # cs) of
        None \<Rightarrow> from_pattern_finditer_from (Some c) cs
      | Some (g, n) \<Rightarrow> g # from_pattern_finditer_from (Some (last g)) (drop (n - 1) cs))"
  by pat_completeness auto
termination
  by (relation "measure (\<lambda>(prev, s). length s)") auto

definition from_pattern_finditer :: "string \<Rightarrow> string list" where
  "from_pattern_finditer sql = from_pattern_finditer_from None sql"

section \<open>The SQL validator (app/services/sql\_validator.py)\<close>

definition BLOCKLIST :: "string list" where
  "BLOCKLIST = [''DROP'', ''DELETE'', ''INSERT'', ''UPDATE'', ''ALTER'', ''TRUNCATE'',
     ''CREATE'', ''REPLACE'', ''MERGE'', ''GRANT'', ''REVOKE'', ''EXEC'', ''EXECUTE'',
     ''CALL'', ''COPY'', ''VACUUM'', ''ANALYZE'']"

record validation_result =
  is_valid :: bool
  error :: "string option"

datatype py_error = IndexError

text \<open>
  \<^verbatim>\<open>sqlparse\<close> is a library outside the repository: \<^verbatim>\<open>sqlparse.parse\<close> is a parameter
  of the model. A parsed statement is the list of its flattened tokens, each with its
  token type (only \<^verbatim>\<open>Keyword\<close>, \<^verbatim>\<open>Keyword.DDL\<close> and \<^verbatim>\<open>Keyword.DML\<close> are told apart)
  and its normalized text.
\<close>

datatype ttype = Keyword | DDL | DML | OtherToken

type_synonym token = "ttype \<times> string"
type_synonym statement = "token list"

record env =
  sqlparse_parse :: "string \<Rightarrow> statement list"
  blocklist_order :: "string list"

text \<open>
  \<open>blocklist_order\<close> is the order in which the loop meets the members of the frozenset
  \<^verbatim>\<open>_BLOCKLIST\<close>; Python does not fix it.
\<close>

definition extract_keywords :: "statement \<Rightarrow> string list" where
  "extract_keywords statement =
     map (\<lambda>(ttype, normalized). py_upper normalized)
         (filter (\<lambda>(ttype, normalized). ttype \<in> {Keyword, DDL, DML}) statement)"

definition blocklist_scan :: "string list \<Rightarrow> string \<Rightarrow> string option" where
  "blocklist_scan order upper_sql = find (\<lambda>keyword. re_search_word keyword upper_sql) order"

definition table_of :: "string \<Rightarrow> string" where
  "table_of g = last (py_split CHR ''.'' (py_lower (py_strip_chars [CHR 0x22] g)))"

definition referenced_tables :: "string \<Rightarrow> string list" where
  "referenced_tables sql = remdups (map table_of (from_pattern_finditer sql))"

definition unknown_tables :: "string list \<Rightarrow> string \<Rightarrow> string list" where
  "unknown_tables known_tables sql =
     (let known_lower = map py_lower known_tables
      in filter (\<lambda>t. t \<notin> set known_lower) (referenced_tables sql))"

definition refusal_msg :: "string \<Rightarrow> string" where
  "refusal_msg first_line =
     ''The AI could not generate a query for that question: ''
       @ py_strip (py_lstrip_chars ''- '' first_line)"

definition forbidden_msg :: "string \<Rightarrow> string" where
  "forbidden_msg keyword =
     ''Forbidden keyword detected: '' @ keyword @ ''. Only SELECT queries are allowed.''"

definition unknown_tables_msg :: "string list \<Rightarrow> string" where
  "unknown_tables_msg unknown =
     ''Query references unknown table(s): '' @ py_join '', '' (sort unknown)"

definition reject :: "string \<Rightarrow> py_error + validation_result" where
  "reject msg = Inr \<lparr>is_valid = False, error = Some msg\<rparr>"

definition accept :: "py_error + validation_result" where
  "accept = Inr \<lparr>is_valid = True, error = None\<rparr>"

definition validate_sql :: "env \<Rightarrow> string \<Rightarrow> string list option \<Rightarrow> py_error + validation_result" where
  "validate_sql e sql0 known_tables =
     (let sql = py_strip sql0 in
      if sql = [] then reject ''Empty SQL query''
      else if py_startswith ''--'' sql then
        (case py_splitlines sql of
           [] \<Rightarrow> Inl IndexError
         | first_line # _ \<Rightarrow> reject (refusal_msg first_line))
      else
        (case blocklist_scan (blocklist_order e) (py_upper sql) of
           Some keyword \<Rightarrow> reject (forbidden_msg keyword)
         | None \<Rightarrow>
            (case sqlparse_parse e sql of
               [] \<Rightarrow> reject ''Could not parse SQL''
             | _ # _ # _ \<Rightarrow> reject ''Multiple statements are not allowed''
             | [statement] \<Rightarrow>
                (let keywords = extract_keywords statement in
                 if keywords = [] \<or> hd keywords \<noteq> ''SELECT''
                 then reject (''Only SELECT statements are allowed. Got: ''
                                @ (if keywords \<noteq> [] then hd keywords else ''unknown''))
                 else
                   (case known_tables of
                      None \<Rightarrow> accept
                    | Some kts \<Rightarrow>
                       if kts = [] then accept
                       else (let unknown = unknown_tables kts sql in
                             if unknown \<noteq> [] then reject (unknown_tables_msg unknown)
                             else accept))))))"

section \<open>The query executor (app/services/query\_executor.py)\<close>

text \<open>
  The database layer (decryption, SQLAlchemy, asyncpg, the PostgreSQL server) is outside
  the repository. A \<open>driver\<close> scripts what it does in one call: which operation raises
  which exception, what a statement returns and how long it takes. A statement that
  raises carries the reason: the server cancelled it at the statement timeout, or
  anything else. The \<open>world\<close> records the clock of \<^verbatim>\<open>time.perf_counter\<close>, the operations
  performed with the clock reading at their return, and the engines and connections
  that are still open.

  The readings of the clock are Python floats. The model does not compute with IEEE
  doubles: the subtraction and the multiplication of floats, rounded as the machine
  rounds them, are the parameters \<open>float_sub\<close> and \<open>float_mul\<close>, and nothing is assumed
  of them.
\<close>

datatype exn = Exn (exn_class: string) (exn_str: string)

datatype sqlval = SqlNull | SqlInt int | SqlText string | SqlBool bool | SqlOpaque string

record cursor =
  returns_rows :: bool
  cur_keys :: "string list"
  cur_rows :: "sqlval list list"

datatype failure_cause = StatementTimeout | OtherFailure

datatype stmt_outcome = Completed cursor | Raised failure_cause exn

record driver =
  decrypt :: "string \<Rightarrow> exn + string"
  to_asyncpg :: "string \<Rightarrow> string"
  create_async_engine :: "string \<Rightarrow> exn option"
  connect :: "exn option"
  run_stmt :: "string \<Rightarrow> stmt_outcome"
  stmt_secs :: "string \<Rightarrow> real"
  fetch_secs :: real
  float_sub :: "real \<Rightarrow> real \<Rightarrow> real"
  float_mul :: "real \<Rightarrow> real \<Rightarrow> real"

datatype op = OpCreateEngine string | OpConnect | OpExecute string | OpPerfCounter
  | OpKeys | OpFetchMany nat | OpCloseConn | OpDispose

record world =
  now :: real
  trace :: "(op \<times> real) list"
  live_engines :: nat
  open_conns :: nat

record query_result =
  columns :: "string list"
  rows :: "sqlval list list"
  exec_time_ms :: int
  row_count :: int

definition MAX_ROWS :: nat where
  "MAX_ROWS = 500"

definition STATEMENT_TIMEOUT_MS :: nat where
  "STATEMENT_TIMEOUT_MS = 10000"

text \<open>\<^verbatim>\<open>str(n)\<close> of a natural number, as the f-string formats it.\<close>

fun py_str_nat :: "nat \<Rightarrow> string" where
  "py_str_nat n =
     (if n < 10 then [digits ! n] else py_str_nat (n div 10) @ [digits ! (n mod 10)])"

definition set_timeout_sql :: string where
  "set_timeout_sql = ''SET statement_timeout = '' @ py_str_nat STATEMENT_TIMEOUT_MS"

text \<open>\<^verbatim>\<open>int(x)\<close> of a float truncates towards zero; it is exact on the value of the float.\<close>

definition py_int :: "real \<Rightarrow> int" where
  "py_int x = (if 0 \<le> x then \<lfloor>x\<rfloor> else \<lceil>x\<rceil>)"

definition log_op :: "op \<Rightarrow> world \<Rightarrow> world" where
  "log_op p w = w\<lparr>trace := trace w @ [(p, now w)]\<rparr>"

text \<open>\<^verbatim>\<open>await conn.execute(text(s))\<close>: the clock advances by the time the statement takes.\<close>

definition conn_execute :: "driver \<Rightarrow> string \<Rightarrow> world \<Rightarrow> stmt_outcome \<times> world" where
  "conn_execute d s w = (run_stmt d s, log_op (OpExecute s) (w\<lparr>now := now w + stmt_secs d s\<rparr>))"

text \<open>\<^verbatim>\<open>result.fetchmany(n)\<close> on the rows of the result.\<close>

definition fetchmany :: "driver \<Rightarrow> nat \<Rightarrow> cursor \<Rightarrow> world \<Rightarrow> sqlval list list \<times> world" where
  "fetchmany d n cur w = (take n (cur_rows cur), log_op (OpFetchMany n) (w\<lparr>now := now w + fetch_secs d\<rparr>))"

definition ResourceClosedError :: exn where
  "ResourceClosedError = Exn ''ResourceClosedError''
     ''This result object does not return rows. It has been closed automatically.''"

text \<open>The body of the \<^verbatim>\<open>async with engine.connect() as conn\<close> block.\<close>

definition conn_body :: "driver \<Rightarrow> string \<Rightarrow> world \<Rightarrow> (exn + query_result) \<times> world" where
  "conn_body d sql w =
     (case conn_execute d set_timeout_sql w of
        (Raised cause ex, w1) \<Rightarrow> (Inl ex, w1)
      | (Completed _, w1) \<Rightarrow>
         (let start = now w1; w2 = log_op OpPerfCounter w1 in
          case conn_execute d sql w2 of
            (Raised cause ex, w3) \<Rightarrow> (Inl ex, w3)
          | (Completed result, w3) \<Rightarrow>
             (let elapsed_ms = py_int (float_mul d (float_sub d (now w3) start) 1000);
                  w4 = log_op OpPerfCounter w3
              in if \<not> returns_rows result then (Inl ResourceClosedError, w4)
                 else (let columns = cur_keys result;
                           w5 = log_op OpKeys w4;
                           (rows, w6) = fetchmany d MAX_ROWS result w5
                       in (Inr \<lparr>columns = columns, rows = rows,
                                 exec_time_ms = elapsed_ms,
                                 row_count = int (length rows)\<rparr>, w6)))))"

text \<open>\<^verbatim>\<open>async with engine.connect() as conn\<close>: the connection is closed when the block is left.\<close>

definition with_connection :: "driver \<Rightarrow> string \<Rightarrow> world \<Rightarrow> (exn + query_result) \<times> world" where
  "with_connection d sql w =
     (case connect d of
        Some ex \<Rightarrow> (Inl ex, w)
      | None \<Rightarrow>
         (let w1 = log_op OpConnect (w\<lparr>open_conns := Suc (open_conns w)\<rparr>);
              (res, w2) = conn_body d sql w1
          in (res, log_op OpCloseConn (w2\<lparr>open_conns := open_conns w2 - 1\<rparr>))))"

text \<open>\<^verbatim>\<open>try: ... finally: await engine.dispose()\<close> around the block.\<close>

definition execute_query :: "driver \<Rightarrow> string \<Rightarrow> string \<Rightarrow> world \<Rightarrow> (exn + query_result) \<times> world" where
  "execute_query d encrypted_conn_string sql w =
     (case decrypt d encrypted_conn_string of
        Inl ex \<Rightarrow> (Inl ex, w)
      | Inr plain \<Rightarrow>
         (let conn_string = to_asyncpg d plain in
          case create_async_engine d conn_string of
            Some ex \<Rightarrow> (Inl ex, w)
          | None \<Rightarrow>
             (let w1 = log_op (OpCreateEngine conn_string) (w\<lparr>live_engines := Suc (live_engines w)\<rparr>);
                  (res, w2) = with_connection d sql w1
              in (res, log_op OpDispose (w2\<lparr>live_engines := live_engines w2 - 1\<rparr>)))))"

section \<open>The pipeline (app/api/endpoints/query.py)\<close>

record table_doc =
  table_name :: string
  doc :: string
  score :: real

datatype event = Status string | SqlChunk string | Results query_result | Done
  | Error "string option"

text \<open>What the run hands to \<^verbatim>\<open>_log_query\<close> in its \<^verbatim>\<open>finally\<close> clause.\<close>

record run_log =
  generated_sql :: string
  exec_result :: "query_result option"
  status_val :: string
  error_msg :: "string option"

record run =
  events :: "event list"
  log :: run_log
  exec_calls :: "(string \<times> string) list"
  final_world :: world

text \<open>
  \<^verbatim>\<open>json.dumps\<close> in \<^verbatim>\<open>_sse\<close> raises a \<^verbatim>\<open>TypeError\<close> on a value it has no encoding for
  (\<open>SqlOpaque\<close> with the name of its type); only the rows of a result can hold one.
\<close>

fun opaque_type :: "sqlval \<Rightarrow> string option" where
  "opaque_type (SqlOpaque ty) = Some ty"
| "opaque_type _ = None"

definition json_type_error :: "query_result \<Rightarrow> exn option" where
  "json_type_error r =
     (case List.map_filter opaque_type (concat (rows r)) of
        [] \<Rightarrow> None
      | ty # _ \<Rightarrow> Some (Exn ''TypeError'' (''Object of type '' @ ty @ '' is not JSON serializable'')))"

text \<open>The \<^verbatim>\<open>except Exception as exc\<close> clause.\<close>

definition except_clause ::
  "event list \<Rightarrow> string \<Rightarrow> query_result option \<Rightarrow> (string \<times> string) list \<Rightarrow> world \<Rightarrow> exn \<Rightarrow> run" where
  "except_clause evs sql res calls w exc =
     \<lparr>events = evs @ [Error (Some (exn_str exc))],
      log = \<lparr>generated_sql = sql, exec_result = res, status_val = ''error'',
             error_msg = Some (exn_str exc)\<rparr>,
      exec_calls = calls, final_world = w\<rparr>"

text \<open>
  One run of \<^verbatim>\<open>_pipeline\<close>, read to its end by the client. \<open>retrieved\<close> is what
  \<^verbatim>\<open>retrieve_schema\<close> returns or raises; \<open>streamed\<close> is what \<^verbatim>\<open>stream_sql\<close> yields, and the
  exception that ends it, if any.
\<close>

definition pipeline ::
  "env \<Rightarrow> driver \<Rightarrow> exn + table_doc list \<Rightarrow> string list \<times> exn option \<Rightarrow> string \<Rightarrow> world \<Rightarrow> run" where
  "pipeline e d retrieved streamed encrypted_conn_string w =
     (let ev0 = [Status ''Retrieving schema context...''] in
      case retrieved of
        Inl exc \<Rightarrow> except_clause ev0 [] None [] w exc
      | Inr table_docs \<Rightarrow>
         (let known_tables = map table_name table_docs;
              ev1 = ev0 @ [Status ''Generating SQL...''];
              (chunks, raised) = streamed;
              ev2 = ev1 @ map SqlChunk chunks
          in case raised of
               Some exc \<Rightarrow> except_clause ev2 (concat chunks) None [] w exc
             | None \<Rightarrow>
                (let generated_sql = py_strip (concat chunks);
                     ev3 = ev2 @ [Status ''Validating SQL...'']
                 in case validate_sql e generated_sql (Some known_tables) of
                      Inl IndexError \<Rightarrow>
                        except_clause ev3 generated_sql None [] w
                          (Exn ''IndexError'' ''list index out of range'')
                    | Inr validation \<Rightarrow>
                       if \<not> is_valid validation
                       then \<lparr>events = ev3 @ [Error (error validation)],
                             log = \<lparr>generated_sql = generated_sql, exec_result = None,
                                    status_val = ''validation_error'',
                                    error_msg = error validation\<rparr>,
                             exec_calls = [], final_world = w\<rparr>
                       else
                         (let ev4 = ev3 @ [Status ''Executing query...''];
                              calls = [(encrypted_conn_string, generated_sql)];
                              (res, w') = execute_query d encrypted_conn_string generated_sql w
                          in case res of
                               Inl exc \<Rightarrow> except_clause ev4 generated_sql None calls w' exc
                             | Inr r \<Rightarrow>
                                (case json_type_error r of
                                   Some exc \<Rightarrow> except_clause ev4 generated_sql (Some r) calls w' exc
                                 | None \<Rightarrow>
                                    \<lparr>events = ev4 @ [Results r, Done],
                                     log = \<lparr>generated_sql = generated_sql, exec_result = Some r,
                                            status_val = ''success'', error_msg = None\<rparr>,
                                     exec_calls = calls, final_world = w'\<rparr>)))))"

definition is_terminal :: "event \<Rightarrow> bool" where
  "is_terminal ev = (case ev of Done \<Rightarrow> True | Error _ \<Rightarrow> True | _ \<Rightarrow> False)"

section \<open>Notions used in the statements\<close>

text \<open>The rows of a driver result are aligned with its keys: SQLAlchemy builds every row
  with one value for each key.\<close>

definition aligned :: "cursor \<Rightarrow> bool" where
  "aligned cur = list_all (\<lambda>row. length row = length (cur_keys cur)) (cur_rows cur)"

text \<open>An engine exists once the connection string is decrypted and
  \<^verbatim>\<open>create_async_engine\<close> has returned.\<close>

definition engine_created :: "driver \<Rightarrow> string \<Rightarrow> bool" where
  "engine_created d enc =
     (case decrypt d enc of Inl ex \<Rightarrow> False
      | Inr plain \<Rightarrow> create_async_engine d (to_asyncpg d plain) = None)"

text \<open>The operations a call adds to the trace.\<close>

definition new_trace :: "world \<Rightarrow> world \<Rightarrow> (op \<times> real) list" where
  "new_trace w w' = drop (length (trace w)) (trace w')"

text \<open>The milliseconds, truncated, between the first occurrences of two operations,
  computed from their clock readings as the code computes \<open>elapsed_ms\<close>.\<close>

definition span_ms :: "driver \<Rightarrow> op \<Rightarrow> op \<Rightarrow> world \<Rightarrow> int option" where
  "span_ms d a b w =
     (case (map_of (trace w) a, map_of (trace w) b) of
        (Some t0, Some t1) \<Rightarrow> Some (py_int (float_mul d (float_sub d t1 t0) 1000))
      | _ \<Rightarrow> None)"

text \<open>
  Example drivers: the connection opens, \<^verbatim>\<open>SET statement_timeout\<close> succeeds at once, and
  every other statement has the outcome \<open>out\<close> after \<open>secs\<close> seconds; fetching takes
  \<open>fsecs\<close> seconds. The examples read the clock at 0, 1/4, 9/4 and 10 only: these are
  doubles, and so are their differences and the products of these by 1000, so that on
  them the arithmetic of floats is the exact one, which the example drivers use.
\<close>

definition set_ok :: "stmt_outcome \<Rightarrow> string \<Rightarrow> stmt_outcome" where
  "set_ok out s = (if s = set_timeout_sql then Completed \<lparr>returns_rows = False, cur_keys = [], cur_rows = []\<rparr> else out)"

definition example_driver :: "stmt_outcome \<Rightarrow> real \<Rightarrow> real \<Rightarrow> driver" where
  "example_driver out secs fsecs =
     \<lparr>decrypt = (\<lambda>token. Inr (''postgresql://'' @ token)),
      to_asyncpg = (\<lambda>s. ''postgresql+asyncpg://'' @ drop 13 s),
      create_async_engine = (\<lambda>s. None),
      connect = None,
      run_stmt = set_ok out,
      stmt_secs = (\<lambda>s. if s = set_timeout_sql then 0 else secs),
      fetch_secs = fsecs,
      float_sub = (\<lambda>a b. a - b),
      float_mul = (\<lambda>a b. a * b)\<rparr>"

definition world0 :: world where
  "world0 = \<lparr>now = 0, trace = [], live_engines = 0, open_conns = 0\<rparr>"

definition one_row :: cursor where
  "one_row = \<lparr>returns_rows = True, cur_keys = [''count''], cur_rows = [[SqlInt 1]]\<rparr>"

definition thousand_rows :: cursor where
  "thousand_rows = \<lparr>returns_rows = True, cur_keys = [''id''], cur_rows = replicate 1000 [SqlInt 7]\<rparr>"

definition timeout_exn :: exn where
  "timeout_exn = Exn ''DBAPIError'' ''canceling statement due to statement timeout''"


text \<open>
  An example environment: \<^verbatim>\<open>sqlparse.parse\<close> on a single statement that begins with a
  six-letter DML keyword, the rest of the statement kept as one token, and the loop
  meeting the denylist in the order of its listing.
\<close>

definition select_tokens :: "string \<Rightarrow> statement" where
  "select_tokens s = [(DML, take 6 s), (OtherToken, drop 6 s)]"

definition example_env :: env where
  "example_env = \<lparr>sqlparse_parse = (\<lambda>s. [select_tokens s]), blocklist_order = BLOCKLIST\<rparr>"

text \<open>Three example calls: a quick statement with a slow fetch, a statement that fails
  after ten seconds with the exception the driver raises at the statement timeout, and a
  statement that fails at once for a column that does not exist.\<close>

definition slow_fetch_run :: "(exn + query_result) \<times> world" where
  "slow_fetch_run = execute_query (example_driver (Completed one_row) (1/4) 2) ''u@h/db'' ''SELECT count(*) FROM t'' world0"



text \<open>
  The notion of the denylist claim, stated on the text as the user gives it and not on
  the code's regular expression. The words of a text are its maximal runs of word
  characters; a keyword stands alone in a text when, letter case aside, it is one of
  these words, and inside a longer identifier it is only a part of one.
\<close>

function words_of :: "string \<Rightarrow> string list" where
  "words_of [] = []"
| "words_of (c # cs) =
     (if is_word c then (c # takeWhile is_word cs) # words_of (dropWhile is_word cs)
      else words_of cs)"
  by pat_completeness auto
termination
  by (relation "measure length") (auto simp: length_dropWhile_le less_Suc_eq_le)

definition has_denylisted_word :: "string \<Rightarrow> bool" where
  "has_denylisted_word sql = list_ex (\<lambda>w. py_upper w \<in> set BLOCKLIST) (words_of sql)"

text \<open>The text up to its first line boundary.\<close>

definition first_line_of :: "string \<Rightarrow> string" where
  "first_line_of s = takeWhile (\<lambda>c. \<not> is_linebreak c) s"

text \<open>A schema-qualified reference with both parts in double quotes.\<close>

definition quoted_ref :: "string \<Rightarrow> string \<Rightarrow> string" where
  "quoted_ref schema name = [CHR 0x22] @ schema @ [CHR 0x22, CHR ''.'', CHR 0x22] @ name @ [CHR 0x22]"

section \<open>The executor: exit paths\<close>

lemma conn_body_Inr:
  assumes "conn_body d sql w = (Inr r, w')"
  shows "\<exists>cset cur. run_stmt d set_timeout_sql = Completed cset \<and> run_stmt d sql = Completed cur \<and> returns_rows cur"
  using assms
  by (auto simp: conn_body_def conn_execute_def fetchmany_def Let_def
           split: stmt_outcome.splits if_splits prod.splits)

lemma with_connection_Inr:
  assumes "with_connection d sql w = (Inr r, w')"
  shows "connect d = None \<and> (\<exists>w1 w2. conn_body d sql w1 = (Inr r, w2))"
  using assms
  by (auto simp: with_connection_def Let_def split: option.splits prod.splits)

lemma execute_query_Inr:
  assumes "execute_query d enc sql w = (Inr r, w')"
  shows "\<exists>plain cset cur. decrypt d enc = Inr plain \<and> create_async_engine d (to_asyncpg d plain) = None \<and>
           connect d = None \<and> run_stmt d set_timeout_sql = Completed cset \<and>
           run_stmt d sql = Completed cur \<and> returns_rows cur"
proof -
  from assms obtain plain w1 w2 where
    p: "decrypt d enc = Inr plain" "create_async_engine d (to_asyncpg d plain) = None"
       "with_connection d sql w1 = (Inr r, w2)"
    by (auto simp: execute_query_def Let_def split: sum.splits option.splits prod.splits)
  from with_connection_Inr[OF p(3)] obtain w3 w4 where
    c: "connect d = None" "conn_body d sql w3 = (Inr r, w4)" by blast
  from conn_body_Inr[OF c(2)] p c(1) show ?thesis by blast
qed

lemma conn_body_ok:
  assumes "run_stmt d set_timeout_sql = Completed cset" "run_stmt d sql = Completed cur" "returns_rows cur"
  shows "fst (conn_body d sql w) =
    Inr \<lparr>columns = cur_keys cur, rows = take MAX_ROWS (cur_rows cur),
          exec_time_ms = py_int (float_mul d (float_sub d
             (now w + stmt_secs d set_timeout_sql + stmt_secs d sql) (now w + stmt_secs d set_timeout_sql)) 1000),
          row_count = int (length (take MAX_ROWS (cur_rows cur)))\<rparr>"
   and "trace (snd (conn_body d sql w)) = trace w @
         [(OpExecute set_timeout_sql, now w + stmt_secs d set_timeout_sql),
          (OpPerfCounter, now w + stmt_secs d set_timeout_sql),
          (OpExecute sql, now w + stmt_secs d set_timeout_sql + stmt_secs d sql),
          (OpPerfCounter, now w + stmt_secs d set_timeout_sql + stmt_secs d sql),
          (OpKeys, now w + stmt_secs d set_timeout_sql + stmt_secs d sql),
          (OpFetchMany MAX_ROWS, now w + stmt_secs d set_timeout_sql + stmt_secs d sql + fetch_secs d)]"
   and "now (snd (conn_body d sql w)) = now w + stmt_secs d set_timeout_sql + stmt_secs d sql + fetch_secs d"
  using assms by (simp_all add: conn_body_def conn_execute_def fetchmany_def log_op_def Let_def)

lemma conn_body_raised:
  assumes "run_stmt d set_timeout_sql = Completed cset" "run_stmt d sql = Raised cause ex"
  shows "fst (conn_body d sql w) = Inl ex"
   and "trace (snd (conn_body d sql w)) = trace w @
         [(OpExecute set_timeout_sql, now w + stmt_secs d set_timeout_sql),
          (OpPerfCounter, now w + stmt_secs d set_timeout_sql),
          (OpExecute sql, now w + stmt_secs d set_timeout_sql + stmt_secs d sql)]"
   and "now (snd (conn_body d sql w)) = now w + stmt_secs d set_timeout_sql + stmt_secs d sql"
  using assms by (simp_all add: conn_body_def conn_execute_def log_op_def Let_def)

lemma with_connection_unfold:
  assumes "connect d = None"
  shows "fst (with_connection d sql w) = fst (conn_body d sql (log_op OpConnect (w\<lparr>open_conns := Suc (open_conns w)\<rparr>)))"
   and "trace (snd (with_connection d sql w)) =
          trace (snd (conn_body d sql (log_op OpConnect (w\<lparr>open_conns := Suc (open_conns w)\<rparr>))))
          @ [(OpCloseConn, now (snd (conn_body d sql (log_op OpConnect (w\<lparr>open_conns := Suc (open_conns w)\<rparr>)))))]"
   and "now (snd (with_connection d sql w)) = now (snd (conn_body d sql (log_op OpConnect (w\<lparr>open_conns := Suc (open_conns w)\<rparr>))))"
  using assms by (simp_all add: with_connection_def log_op_def Let_def split_def)

lemma execute_query_unfold:
  assumes "decrypt d enc = Inr plain" "create_async_engine d (to_asyncpg d plain) = None"
  shows "fst (execute_query d enc sql w) =
           fst (with_connection d sql (log_op (OpCreateEngine (to_asyncpg d plain)) (w\<lparr>live_engines := Suc (live_engines w)\<rparr>)))"
   and "trace (snd (execute_query d enc sql w)) =
          trace (snd (with_connection d sql (log_op (OpCreateEngine (to_asyncpg d plain)) (w\<lparr>live_engines := Suc (live_engines w)\<rparr>))))
          @ [(OpDispose, now (snd (with_connection d sql (log_op (OpCreateEngine (to_asyncpg d plain)) (w\<lparr>live_engines := Suc (live_engines w)\<rparr>)))))]"
  using assms by (simp_all add: execute_query_def log_op_def Let_def split_def)

lemma execute_query_ok:
  assumes "decrypt d enc = Inr plain" "create_async_engine d (to_asyncpg d plain) = None"
    "connect d = None"
    "run_stmt d set_timeout_sql = Completed cset" "run_stmt d sql = Completed cur" "returns_rows cur"
  shows "fst (execute_query d enc sql w) =
    Inr \<lparr>columns = cur_keys cur, rows = take MAX_ROWS (cur_rows cur),
          exec_time_ms = py_int (float_mul d (float_sub d
             (now w + stmt_secs d set_timeout_sql + stmt_secs d sql) (now w + stmt_secs d set_timeout_sql)) 1000),
          row_count = int (length (take MAX_ROWS (cur_rows cur)))\<rparr>"
   and "trace (snd (execute_query d enc sql w)) = trace w @
         [(OpCreateEngine (to_asyncpg d plain), now w), (OpConnect, now w),
          (OpExecute set_timeout_sql, now w + stmt_secs d set_timeout_sql),
          (OpPerfCounter, now w + stmt_secs d set_timeout_sql),
          (OpExecute sql, now w + stmt_secs d set_timeout_sql + stmt_secs d sql),
          (OpPerfCounter, now w + stmt_secs d set_timeout_sql + stmt_secs d sql),
          (OpKeys, now w + stmt_secs d set_timeout_sql + stmt_secs d sql),
          (OpFetchMany MAX_ROWS, now w + stmt_secs d set_timeout_sql + stmt_secs d sql + fetch_secs d),
          (OpCloseConn, now w + stmt_secs d set_timeout_sql + stmt_secs d sql + fetch_secs d),
          (OpDispose, now w + stmt_secs d set_timeout_sql + stmt_secs d sql + fetch_secs d)]"
  using assms
  by (simp_all add: execute_query_unfold with_connection_unfold conn_body_ok log_op_def)

lemma execute_query_raised:
  assumes "decrypt d enc = Inr plain" "create_async_engine d (to_asyncpg d plain) = None"
    "connect d = None"
    "run_stmt d set_timeout_sql = Completed cset" "run_stmt d sql = Raised cause ex"
  shows "fst (execute_query d enc sql w) = Inl ex"
   and "trace (snd (execute_query d enc sql w)) = trace w @
         [(OpCreateEngine (to_asyncpg d plain), now w), (OpConnect, now w),
          (OpExecute set_timeout_sql, now w + stmt_secs d set_timeout_sql),
          (OpPerfCounter, now w + stmt_secs d set_timeout_sql),
          (OpExecute sql, now w + stmt_secs d set_timeout_sql + stmt_secs d sql),
          (OpCloseConn, now w + stmt_secs d set_timeout_sql + stmt_secs d sql),
          (OpDispose, now w + stmt_secs d set_timeout_sql + stmt_secs d sql)]"
  using assms
  by (simp_all add: execute_query_unfold with_connection_unfold conn_body_raised log_op_def)

lemma set_timeout_sql_eq: "set_timeout_sql = ''SET statement_timeout = 10000''"
  by (simp add: set_timeout_sql_def STATEMENT_TIMEOUT_MS_def digits_def)

lemma example_driver_simps:
  "decrypt (example_driver out secs fsecs) tok = Inr (''postgresql://'' @ tok)"
  "create_async_engine (example_driver out secs fsecs) s = None"
  "connect (example_driver out secs fsecs) = None"
  "run_stmt (example_driver out secs fsecs) set_timeout_sql = Completed \<lparr>returns_rows = False, cur_keys = [], cur_rows = []\<rparr>"
  "s \<noteq> set_timeout_sql \<Longrightarrow> run_stmt (example_driver out secs fsecs) s = out"
  "stmt_secs (example_driver out secs fsecs) set_timeout_sql = 0"
  "s \<noteq> set_timeout_sql \<Longrightarrow> stmt_secs (example_driver out secs fsecs) s = secs"
  "fetch_secs (example_driver out secs fsecs) = fsecs"
  "float_sub (example_driver out secs fsecs) a b = a - b"
  "float_mul (example_driver out secs fsecs) a b = a * b"
  "to_asyncpg (example_driver out secs fsecs) s = ''postgresql+asyncpg://'' @ drop 13 s"
  by (simp_all add: example_driver_def set_ok_def)

lemma run_eq: "execute_query d enc sql w = (fst (execute_query d enc sql w), snd (execute_query d enc sql w))"
  by simp

text \<open>
  C4. A successful \<^verbatim>\<open>execute_query\<close> returns \<open>row_count = len(rows)\<close>, at most 500
  rows whatever the statement produced (the first 500 rows of the driver's result), and,
  the driver's rows being aligned with its keys, every row has as many values as there
  are columns.
\<close>
theorem execute_query_result_shape:
  assumes "execute_query d enc sql w = (Inr r, w')"
  shows "row_count r = int (length (rows r)) \<and> row_count r \<le> 500 \<and>
         (\<forall>cur. run_stmt d sql = Completed cur \<longrightarrow>
            columns r = cur_keys cur \<and> rows r = take 500 (cur_rows cur) \<and>
            (aligned cur \<longrightarrow> list_all (\<lambda>row. length row = length (columns r)) (rows r)))"
proof -
  from execute_query_Inr[OF assms] obtain plain cset cur where
    c: "decrypt d enc = Inr plain" "create_async_engine d (to_asyncpg d plain) = None"
       "connect d = None" "run_stmt d set_timeout_sql = Completed cset"
       "run_stmt d sql = Completed cur" "returns_rows cur" by blast
  from assms have "fst (execute_query d enc sql w) = Inr r" by simp
  with execute_query_ok(1)[OF c, of w]
  have r: "r = \<lparr>columns = cur_keys cur, rows = take MAX_ROWS (cur_rows cur),
          exec_time_ms = py_int (float_mul d (float_sub d
             (now w + stmt_secs d set_timeout_sql + stmt_secs d sql) (now w + stmt_secs d set_timeout_sql)) 1000),
          row_count = int (length (take MAX_ROWS (cur_rows cur)))\<rparr>" by simp
  have a: "aligned cur \<longrightarrow> list_all (\<lambda>row. length row = length (columns r)) (rows r)"
    by (auto simp: r aligned_def list_all_iff dest: in_set_takeD)
  have "row_count r = int (length (rows r))" "row_count r \<le> 500"
       "columns r = cur_keys cur" "rows r = take 500 (cur_rows cur)"
    by (simp_all add: r MAX_ROWS_def)
  with a c(5) show ?thesis by simp
qed

theorem execute_query_result_shape_witness:
  "fst (execute_query (example_driver (Completed thousand_rows) (1/4) 2) ''u@h/db'' ''SELECT id FROM t'' world0)
     = Inr \<lparr>columns = [''id''], rows = replicate 500 [SqlInt 7], exec_time_ms = 250, row_count = 500\<rparr>
   \<and> list_all (\<lambda>row. length row = 1) (replicate 500 [SqlInt 7])"
proof -
  let ?d = "example_driver (Completed thousand_rows) (1/4) 2"
  let ?r = "\<lparr>columns = [''id''], rows = replicate 500 [SqlInt 7], exec_time_ms = 250, row_count = 500\<rparr>"
  have ne: "''SELECT id FROM t'' \<noteq> set_timeout_sql" by (simp add: set_timeout_sql_eq)
  have f: "fst (execute_query ?d ''u@h/db'' ''SELECT id FROM t'' world0) = Inr ?r"
    by (simp add: execute_query_ok[where cset="\<lparr>returns_rows = False, cur_keys = [], cur_rows = []\<rparr>" and cur=thousand_rows]
          example_driver_simps ne thousand_rows_def MAX_ROWS_def py_int_def world0_def)
  then have run: "execute_query ?d ''u@h/db'' ''SELECT id FROM t'' world0 =
      (Inr ?r, snd (execute_query ?d ''u@h/db'' ''SELECT id FROM t'' world0))"
    by (metis prod.collapse)
  have al: "aligned thousand_rows" by (simp add: aligned_def thousand_rows_def list_all_iff)
  have "run_stmt ?d ''SELECT id FROM t'' = Completed thousand_rows"
    by (simp add: example_driver_simps ne)
  with execute_query_result_shape[OF run] al
  have "list_all (\<lambda>row. length row = length (columns ?r)) (rows ?r)" by blast
  with f show ?thesis by simp
qed

lemma conn_body_counts:
  "conn_body d sql w = (res, w') \<Longrightarrow> live_engines w' = live_engines w \<and> open_conns w' = open_conns w"
  by (auto simp: conn_body_def conn_execute_def fetchmany_def log_op_def Let_def
           split: stmt_outcome.splits if_splits prod.splits)

lemma with_connection_counts:
  assumes "with_connection d sql w = (res, w')"
  shows "live_engines w' = live_engines w \<and> open_conns w' = open_conns w"
proof (cases "connect d")
  case (Some ex)
  with assms show ?thesis by (simp add: with_connection_def)
next
  case None
  define w1 where "w1 = log_op OpConnect (w\<lparr>open_conns := Suc (open_conns w)\<rparr>)"
  obtain r w2 where cb: "conn_body d sql w1 = (r, w2)"
    using prod.exhaust by blast
  from conn_body_counts[OF cb]
  have m: "live_engines w2 = live_engines w" "open_conns w2 = Suc (open_conns w)"
    by (simp_all add: log_op_def w1_def)
  from assms None cb have w': "w' = log_op OpCloseConn (w2\<lparr>open_conns := open_conns w2 - 1\<rparr>)"
    by (simp add: with_connection_def Let_def w1_def)
  show ?thesis using m by (simp add: w' log_op_def)
qed

text \<open>
  C8. Whatever way \<^verbatim>\<open>execute_query\<close> ends (a result, a driver error, the statement timeout),
  as many engines and connections are open after the call as before it, and once an
  engine was created the last operation of the call is its disposal.
\<close>

theorem execute_query_releases:
  assumes "execute_query d enc sql w = (res, w')"
  shows "live_engines w' = live_engines w \<and> open_conns w' = open_conns w \<and>
         (if engine_created d enc then last (trace w') = (OpDispose, now w')
          else trace w' = trace w)"
proof (cases "decrypt d enc")
  case (Inl ex)
  with assms show ?thesis by (simp add: execute_query_def engine_created_def)
next
  case (Inr plain)
  show ?thesis
  proof (cases "create_async_engine d (to_asyncpg d plain)")
    case (Some ex)
    with assms Inr show ?thesis by (simp add: execute_query_def engine_created_def)
  next
    case None
    define w1 where "w1 = log_op (OpCreateEngine (to_asyncpg d plain)) (w\<lparr>live_engines := Suc (live_engines w)\<rparr>)"
    obtain r w2 where wc: "with_connection d sql w1 = (r, w2)"
      using prod.exhaust by blast
    from with_connection_counts[OF wc]
    have m: "live_engines w2 = Suc (live_engines w)" "open_conns w2 = open_conns w"
      by (simp_all add: log_op_def w1_def)
    from assms Inr None wc have w': "w' = log_op OpDispose (w2\<lparr>live_engines := live_engines w2 - 1\<rparr>)"
      by (simp add: execute_query_def Let_def w1_def)
    have ec: "engine_created d enc" using Inr None by (simp add: engine_created_def)
    show ?thesis using m ec by (simp add: w' log_op_def)
  qed
qed

theorem execute_query_releases_witness:
  "fst (execute_query (example_driver (Raised StatementTimeout timeout_exn) 10 0) ''u@h/db'' ''SELECT pg_sleep(60)'' world0)
     = Inl timeout_exn \<and>
   live_engines (snd (execute_query (example_driver (Raised StatementTimeout timeout_exn) 10 0) ''u@h/db'' ''SELECT pg_sleep(60)'' world0)) = 0 \<and>
   open_conns (snd (execute_query (example_driver (Raised StatementTimeout timeout_exn) 10 0) ''u@h/db'' ''SELECT pg_sleep(60)'' world0)) = 0 \<and>
   fst (last (trace (snd (execute_query (example_driver (Raised StatementTimeout timeout_exn) 10 0) ''u@h/db'' ''SELECT pg_sleep(60)'' world0)))) = OpDispose"
proof -
  let ?d = "example_driver (Raised StatementTimeout timeout_exn) 10 0"
  let ?X = "execute_query ?d ''u@h/db'' ''SELECT pg_sleep(60)'' world0"
  have ne: "''SELECT pg_sleep(60)'' \<noteq> set_timeout_sql" by (simp add: set_timeout_sql_eq)
  have f: "fst ?X = Inl timeout_exn"
    by (simp add: execute_query_raised[where cset="\<lparr>returns_rows = False, cur_keys = [], cur_rows = []\<rparr>" and cause=StatementTimeout]
          example_driver_simps ne)
  have ec: "engine_created ?d ''u@h/db''" by (simp add: engine_created_def example_driver_simps)
  from execute_query_releases[OF run_eq, of ?d "''u@h/db''" "''SELECT pg_sleep(60)''" world0] ec f
  show ?thesis by (simp add: world0_def)
qed

text \<open>
  C6, as the code has it. The reported \<open>exec_time_ms\<close> is \<^verbatim>\<open>int((t1 - t0) * 1000)\<close>, in
  the arithmetic of floats, of the two readings of the clock taken just before and just
  after \<^verbatim>\<open>conn.execute(text(sql))\<close>. The keys are read and the rows fetched after the second
  reading: the fetch ends \<open>fetch_secs\<close> later, and however long it takes the same
  result, with the same \<open>exec_time_ms\<close>, is returned.
\<close>

theorem exec_time_spans_execute_only:
  assumes "execute_query d enc sql w = (Inr r, w')"
  shows "map fst (drop 2 (new_trace w w')) =
           [OpExecute set_timeout_sql, OpPerfCounter, OpExecute sql, OpPerfCounter,
            OpKeys, OpFetchMany MAX_ROWS, OpCloseConn, OpDispose] \<and>
         exec_time_ms r =
           py_int (float_mul d (float_sub d (snd (new_trace w w' ! 5)) (snd (new_trace w w' ! 3))) 1000) \<and>
         snd (new_trace w w' ! 7) = snd (new_trace w w' ! 5) + fetch_secs d \<and>
         (\<forall>f. fst (execute_query (d\<lparr>fetch_secs := f\<rparr>) enc sql w) = Inr r)"
proof -
  from execute_query_Inr[OF assms] obtain plain cset cur where
    c: "decrypt d enc = Inr plain" "create_async_engine d (to_asyncpg d plain) = None"
       "connect d = None" "run_stmt d set_timeout_sql = Completed cset"
       "run_stmt d sql = Completed cur" "returns_rows cur" by blast
  from assms have fs: "fst (execute_query d enc sql w) = Inr r" "snd (execute_query d enc sql w) = w'"
    by simp_all
  from execute_query_ok(1)[OF c, of w] fs(1)
  have r: "r = \<lparr>columns = cur_keys cur, rows = take MAX_ROWS (cur_rows cur),
          exec_time_ms = py_int (float_mul d (float_sub d
             (now w + stmt_secs d set_timeout_sql + stmt_secs d sql) (now w + stmt_secs d set_timeout_sql)) 1000),
          row_count = int (length (take MAX_ROWS (cur_rows cur)))\<rparr>" by simp
  from execute_query_ok(2)[OF c, of w] fs(2)
  have n: "new_trace w w' =
         [(OpCreateEngine (to_asyncpg d plain), now w), (OpConnect, now w),
          (OpExecute set_timeout_sql, now w + stmt_secs d set_timeout_sql),
          (OpPerfCounter, now w + stmt_secs d set_timeout_sql),
          (OpExecute sql, now w + stmt_secs d set_timeout_sql + stmt_secs d sql),
          (OpPerfCounter, now w + stmt_secs d set_timeout_sql + stmt_secs d sql),
          (OpKeys, now w + stmt_secs d set_timeout_sql + stmt_secs d sql),
          (OpFetchMany MAX_ROWS, now w + stmt_secs d set_timeout_sql + stmt_secs d sql + fetch_secs d),
          (OpCloseConn, now w + stmt_secs d set_timeout_sql + stmt_secs d sql + fetch_secs d),
          (OpDispose, now w + stmt_secs d set_timeout_sql + stmt_secs d sql + fetch_secs d)]"
    by (simp add: new_trace_def)
  have f: "fst (execute_query (d\<lparr>fetch_secs := f\<rparr>) enc sql w) = Inr r" for f
  proof -
    have c': "decrypt (d\<lparr>fetch_secs := f\<rparr>) enc = Inr plain"
      "create_async_engine (d\<lparr>fetch_secs := f\<rparr>) (to_asyncpg (d\<lparr>fetch_secs := f\<rparr>) plain) = None"
      "connect (d\<lparr>fetch_secs := f\<rparr>) = None"
      "run_stmt (d\<lparr>fetch_secs := f\<rparr>) set_timeout_sql = Completed cset"
      "run_stmt (d\<lparr>fetch_secs := f\<rparr>) sql = Completed cur" "returns_rows cur"
      using c by simp_all
    show ?thesis unfolding execute_query_ok(1)[OF c', of w] r by simp
  qed
  show ?thesis using f by (simp add: r n)
qed

lemma slow_fetch_run_fst:
  "fst slow_fetch_run = Inr \<lparr>columns = [''count''], rows = [[SqlInt 1]], exec_time_ms = 250, row_count = 1\<rparr>"
proof -
  have ne: "''SELECT count(*) FROM t'' \<noteq> set_timeout_sql" by (simp add: set_timeout_sql_eq)
  show ?thesis unfolding slow_fetch_run_def
    by (simp add: execute_query_ok[where cset="\<lparr>returns_rows = False, cur_keys = [], cur_rows = []\<rparr>" and cur=one_row]
          example_driver_simps ne one_row_def MAX_ROWS_def py_int_def world0_def)
qed

lemma slow_fetch_run_trace:
  "trace (snd slow_fetch_run) =
     [(OpCreateEngine ''postgresql+asyncpg://u@h/db'', 0), (OpConnect, 0),
      (OpExecute set_timeout_sql, 0), (OpPerfCounter, 0),
      (OpExecute ''SELECT count(*) FROM t'', 1/4), (OpPerfCounter, 1/4), (OpKeys, 1/4),
      (OpFetchMany MAX_ROWS, 9/4), (OpCloseConn, 9/4), (OpDispose, 9/4)]"
proof -
  have ne: "''SELECT count(*) FROM t'' \<noteq> set_timeout_sql" by (simp add: set_timeout_sql_eq)
  show ?thesis unfolding slow_fetch_run_def
    by (simp add: execute_query_ok[where cset="\<lparr>returns_rows = False, cur_keys = [], cur_rows = []\<rparr>" and cur=one_row]
          example_driver_simps ne one_row_def world0_def)
qed

theorem exec_time_spans_execute_only_witness:
  "fst slow_fetch_run = Inr \<lparr>columns = [''count''], rows = [[SqlInt 1]], exec_time_ms = 250, row_count = 1\<rparr> \<and>
   snd (new_trace world0 (snd slow_fetch_run) ! 3) = 0 \<and>
   snd (new_trace world0 (snd slow_fetch_run) ! 5) = 1/4 \<and>
   snd (new_trace world0 (snd slow_fetch_run) ! 7) = 9/4 \<and>
   fst (execute_query (example_driver (Completed one_row) (1/4) 60) ''u@h/db'' ''SELECT count(*) FROM t'' world0)
     = Inr \<lparr>columns = [''count''], rows = [[SqlInt 1]], exec_time_ms = 250, row_count = 1\<rparr>"
proof -
  let ?d = "example_driver (Completed one_row) (1/4) 2"
  have ne: "''SELECT count(*) FROM t'' \<noteq> set_timeout_sql" by (simp add: set_timeout_sql_eq)
  have run: "execute_query ?d ''u@h/db'' ''SELECT count(*) FROM t'' world0 =
      (Inr \<lparr>columns = [''count''], rows = [[SqlInt 1]], exec_time_ms = 250, row_count = 1\<rparr>, snd slow_fetch_run)"
    using slow_fetch_run_fst by (metis prod.collapse slow_fetch_run_def)
  have u: "(example_driver (Completed one_row) (1/4) 2)\<lparr>fetch_secs := 60\<rparr> = example_driver (Completed one_row) (1/4) 60"
    by (simp add: example_driver_def)
  have n: "new_trace world0 (snd slow_fetch_run) = trace (snd slow_fetch_run)"
    by (simp add: new_trace_def world0_def)
  from exec_time_spans_execute_only[OF run]
  have "fst (execute_query ((example_driver (Completed one_row) (1/4) 2)\<lparr>fetch_secs := 60\<rparr>) ''u@h/db'' ''SELECT count(*) FROM t'' world0)
     = Inr \<lparr>columns = [''count''], rows = [[SqlInt 1]], exec_time_ms = 250, row_count = 1\<rparr>"
    by blast
  then show ?thesis unfolding u by (simp add: slow_fetch_run_fst n slow_fetch_run_trace)
qed

text \<open>
  C6, as the claim states it, fails: with a statement that takes a quarter of a second
  and a fetch that takes two seconds, 250 ms are reported, while 2250 ms pass between
  the first reading of the clock and the return of \<^verbatim>\<open>fetchmany\<close>.
\<close>

theorem exec_time_excludes_fetch:
  "fst slow_fetch_run = Inr \<lparr>columns = [''count''], rows = [[SqlInt 1]], exec_time_ms = 250, row_count = 1\<rparr> \<and>
   span_ms (example_driver (Completed one_row) (1/4) 2) OpPerfCounter (OpFetchMany MAX_ROWS)
     (snd slow_fetch_run) = Some 2250"
  by (simp add: slow_fetch_run_fst slow_fetch_run_trace span_ms_def py_int_def example_driver_simps)

section \<open>The executor: errors\<close>



section \<open>The pipeline\<close>

lemma no_terminal_chunk: "filter is_terminal (map SqlChunk chunks) = []"
  by (induction chunks) (simp_all add: is_terminal_def)

text \<open>
  C2. In a run whose accumulated SQL fails validation, the events are the two status
  events, the chunks, the status of the validation step and one error event carrying the
  validator's message: the error event is the last event and the only terminal one, and
  \<^verbatim>\<open>execute_query\<close> is not called (no call is recorded and the world is untouched).
\<close>

theorem pipeline_validation_failure:
  assumes "validate_sql e (py_strip (concat chunks)) (Some (map table_name table_docs)) = Inr v"
    and "\<not> is_valid v"
  shows "events (pipeline e d (Inr table_docs) (chunks, None) enc w) =
           [Status ''Retrieving schema context...'', Status ''Generating SQL...'']
             @ map SqlChunk chunks @ [Status ''Validating SQL...'', Error (error v)] \<and>
         last (events (pipeline e d (Inr table_docs) (chunks, None) enc w)) = Error (error v) \<and>
         filter is_terminal (events (pipeline e d (Inr table_docs) (chunks, None) enc w)) = [Error (error v)] \<and>
         exec_calls (pipeline e d (Inr table_docs) (chunks, None) enc w) = [] \<and>
         final_world (pipeline e d (Inr table_docs) (chunks, None) enc w) = w \<and>
         status_val (log (pipeline e d (Inr table_docs) (chunks, None) enc w)) = ''validation_error''"
  using assms by (simp add: pipeline_def Let_def no_terminal_chunk is_terminal_def)

lemma validate_delete_example:
  "validate_sql example_env (py_strip (concat [''DELETE '', ''FROM users''])) (Some (map table_name [\<lparr>table_name = ''users'', doc = ''Table: users'', score = 1\<rparr>]))
     = Inr \<lparr>is_valid = False, error = Some ''Forbidden keyword detected: DELETE. Only SELECT queries are allowed.''\<rparr>"
  by code_simp

theorem pipeline_validation_failure_witness:
  "events (pipeline example_env (example_driver (Completed one_row) 0 0)
       (Inr [\<lparr>table_name = ''users'', doc = ''Table: users'', score = 1\<rparr>]) ([''DELETE '', ''FROM users''], None) ''u@h/db'' world0) =
     [Status ''Retrieving schema context...'', Status ''Generating SQL...'',
      SqlChunk ''DELETE '', SqlChunk ''FROM users'', Status ''Validating SQL...'',
      Error (Some ''Forbidden keyword detected: DELETE. Only SELECT queries are allowed.'')] \<and>
   exec_calls (pipeline example_env (example_driver (Completed one_row) 0 0)
       (Inr [\<lparr>table_name = ''users'', doc = ''Table: users'', score = 1\<rparr>]) ([''DELETE '', ''FROM users''], None) ''u@h/db'' world0) = []"
  using pipeline_validation_failure[OF validate_delete_example, of "example_driver (Completed one_row) 0 0" "''u@h/db''" world0]
  by simp

section \<open>The validator: the allow-list step\<close>

text \<open>
  C9. An allow-list that is given but empty is no allow-list: the validator answers as it
  does without one, so a single SELECT statement is accepted whatever tables it names.
  This is the case of a run whose schema retrieval returned no table.
\<close>

theorem empty_allow_list_skipped:
  "validate_sql e sql (Some []) = validate_sql e sql None \<and>
   validate_sql e sql (Some (map table_name [])) = validate_sql e sql None"
  by (simp add: validate_sql_def Let_def split: option.splits list.splits)

lemma validate_select_example:
  "validate_sql example_env ''SELECT * FROM anything'' None = accept"
  by code_simp

theorem empty_allow_list_skipped_witness:
  "validate_sql example_env ''SELECT * FROM anything'' (Some []) = Inr \<lparr>is_valid = True, error = None\<rparr>"
  using empty_allow_list_skipped[of example_env "''SELECT * FROM anything''"] validate_select_example
  by (simp add: accept_def)

section \<open>Character classes\<close>

lemma is_word_upper [simp]: "is_word (py_upper_char c) = is_word c"
  by (simp add: is_word_def py_upper_char_def lowers_def uppers_def digits_def)

lemma space_not_word: "is_space c \<Longrightarrow> \<not> is_word c"
  by (auto simp: is_space_def is_word_def lowers_def uppers_def digits_def)

lemma blocklist_words: "K \<in> set BLOCKLIST \<Longrightarrow> K \<noteq> [] \<and> list_all is_word K"
  by (auto simp: BLOCKLIST_def is_word_def lowers_def uppers_def digits_def)

section \<open>Words and the word-boundary search\<close>

lemma words_of_upper: "words_of (map py_upper_char s) = map (map py_upper_char) (words_of s)"
  by (induction s rule: words_of.induct) (simp_all add: takeWhile_map dropWhile_map comp_def)

lemma words_of_drop_space: "words_of (dropWhile is_space s) = words_of s"
  by (induction s) (simp_all add: space_not_word)

lemma run_append_nonword:
  assumes "takeWhile P b = []"
  shows "takeWhile P (cs @ b) = takeWhile P cs \<and> dropWhile P (cs @ b) = dropWhile P cs @ b"
proof -
  have "dropWhile P b = b" using assms takeWhile_dropWhile_id[of P b] by simp
  with assms show ?thesis by (induction cs) simp_all
qed

lemma words_of_append_nonword:
  "list_all (\<lambda>c. \<not> is_word c) b \<Longrightarrow> words_of (s @ b) = words_of s"
proof (induction s rule: words_of.induct)
  case 1
  then show ?case by (induction b) simp_all
next
  case (2 c cs)
  have tb: "takeWhile is_word b = []" using 2(3) by (cases b) simp_all
  have db: "dropWhile is_word b = b" using 2(3) by (cases b) simp_all
  show ?case
  proof (cases "is_word c")
    case True
    note td = run_append_nonword[OF tb, of cs]
    from 2(1)[OF True 2(3)] True show ?thesis by (simp add: td)
  next
    case False
    from 2(2)[OF False 2(3)] False show ?thesis by simp
  qed
qed

lemma words_of_strip: "words_of (py_strip s) = words_of s"
proof -
  let ?m = "dropWhile is_space s"
  have "?m = py_strip s @ rev (takeWhile is_space (rev ?m))"
    unfolding py_strip_def
    by (metis rev_append rev_rev_ident takeWhile_dropWhile_id)
  moreover have "list_all (\<lambda>c. \<not> is_word c) (rev (takeWhile is_space (rev ?m)))"
    by (auto simp: list_all_iff space_not_word dest: set_takeWhileD)
  ultimately have "words_of ?m = words_of (py_strip s)"
    using words_of_append_nonword by metis
  then show ?thesis by (simp add: words_of_drop_space)
qed

lemma match_is_run:
  assumes "K \<noteq> []" "list_all is_word K"
  shows "(take (length K) s = K \<and> \<not> is_word_opt (head_opt (drop (length K) s)))
           \<longleftrightarrow> takeWhile is_word s = K"
proof
  assume a: "take (length K) s = K \<and> \<not> is_word_opt (head_opt (drop (length K) s))"
  define r where "r = drop (length K) s"
  have s: "s = K @ r" using a by (metis append_take_drop_id r_def)
  have "takeWhile is_word r = []" using a by (cases r) (simp_all add: r_def head_opt_def)
  then show "takeWhile is_word s = K"
    using assms(2) by (simp add: s takeWhile_append list_all_iff)
next
  assume b: "takeWhile is_word s = K"
  have t: "take (length K) s = K" using b takeWhile_eq_take by metis
  have d: "drop (length K) s = dropWhile is_word s" using b dropWhile_eq_drop by metis
  have "\<not> is_word_opt (head_opt (dropWhile is_word s))"
  proof (cases "dropWhile is_word s")
    case Nil
    show ?thesis unfolding Nil by (simp add: head_opt_def)
  next
    case (Cons x xs)
    then have "dropWhile is_word s \<noteq> []" by simp
    from hd_dropWhile[OF this] have "\<not> is_word x" unfolding Cons by simp
    then show ?thesis unfolding Cons by (simp add: head_opt_def)
  qed
  with t d show "take (length K) s = K \<and> \<not> is_word_opt (head_opt (drop (length K) s))" by simp
qed

lemma search_is_word:
  assumes "K \<noteq> []" "list_all is_word K"
  shows "re_search_word_from prev K s =
           (K \<in> set (words_of (if is_word_opt prev then dropWhile is_word s else s)))"
proof (induction s arbitrary: prev)
  case Nil
  from assms(1) show ?case by (auto simp: match_word_here_def)
next
  case (Cons c cs)
  have lastK: "is_word (last K)" using assms by (simp add: list_all_iff)
  have hdK: "is_word (hd K)" using assms by (simp add: list_all_iff)
  have here: "match_word_here prev K (c # cs) =
                (\<not> is_word_opt prev \<and> is_word c \<and> takeWhile is_word (c # cs) = K)"
  proof (cases "is_word c")
    case True
    have "match_word_here prev K (c # cs) =
            (\<not> is_word_opt prev \<and> take (length K) (c # cs) = K \<and>
             \<not> is_word_opt (head_opt (drop (length K) (c # cs))))"
      using True assms(1) lastK by (auto simp: match_word_here_def word_boundary_def head_opt_def)
    then show ?thesis using match_is_run[OF assms, of "c # cs"] True by blast
  next
    case False
    have "take (length K) (c # cs) \<noteq> K"
    proof
      assume "take (length K) (c # cs) = K"
      then have "hd K = c" using assms(1) by (cases K) auto
      with hdK False show False by simp
    qed
    with False show ?thesis by (simp add: match_word_here_def)
  qed
  show ?case
    using Cons.IH[of "Some c"] here by (cases "is_word c") auto
qed

lemma re_search_word_iff:
  assumes "K \<in> set BLOCKLIST"
  shows "re_search_word K (py_upper (py_strip sql)) \<longleftrightarrow> K \<in> py_upper ` set (words_of sql)"
proof -
  from blocklist_words[OF assms] have k: "K \<noteq> []" "list_all is_word K" by simp_all
  show ?thesis
    by (simp add: re_search_word_def search_is_word[OF k] py_upper_def words_of_upper words_of_strip)
qed

lemma blocklist_scan_None:
  assumes "set order = set BLOCKLIST"
  shows "blocklist_scan order (py_upper (py_strip sql)) = None \<longleftrightarrow> \<not> has_denylisted_word sql"
  using assms
  by (auto simp: blocklist_scan_def find_None_iff re_search_word_iff has_denylisted_word_def list_ex_iff)

lemma blocklist_scan_Some:
  assumes "set order = set BLOCKLIST" "blocklist_scan order (py_upper (py_strip sql)) = Some K"
  shows "K \<in> set BLOCKLIST \<and> K \<in> py_upper ` set (words_of sql)"
proof -
  from assms(2) have "K \<in> set order \<and> re_search_word K (py_upper (py_strip sql))"
    by (auto simp: blocklist_scan_def find_Some_iff)
  with assms(1) re_search_word_iff show ?thesis by auto
qed

section \<open>Lines and stripping\<close>

lemma splitlines_from_first:
  "cur \<noteq> [] \<or> s \<noteq> [] \<Longrightarrow>
     \<exists>rest. splitlines_from cur s = (rev cur @ first_line_of s) # rest"
proof (induction s arbitrary: cur)
  case Nil
  then show ?case by (simp add: first_line_of_def)
next
  case (Cons c cs)
  show ?case
  proof (cases "is_linebreak c")
    case True
    then show ?thesis by (simp add: first_line_of_def)
  next
    case False
    from Cons.IH[of "c # cur"] obtain rest where
      "splitlines_from (c # cur) cs = (rev (c # cur) @ first_line_of cs) # rest" by auto
    with False show ?thesis by (simp add: first_line_of_def)
  qed
qed

lemma py_splitlines_first:
  "s \<noteq> [] \<Longrightarrow> \<exists>rest. py_splitlines s = first_line_of s # rest"
  using splitlines_from_first[of "[]" s] by (simp add: py_splitlines_def)

lemma py_strip_ends:
  "py_strip s = [] \<or> (\<not> is_space (hd (py_strip s)) \<and> \<not> is_space (last (py_strip s)))"
proof (cases "py_strip s = []")
  case True
  then show ?thesis by simp
next
  case False
  let ?m = "dropWhile is_space s"
  let ?r = "dropWhile is_space (rev ?m)"
  have r: "?r \<noteq> []" using False by (simp add: py_strip_def)
  have l: "\<not> is_space (last (py_strip s))"
    using hd_dropWhile[OF r] r by (simp add: py_strip_def last_rev)
  have m: "?m \<noteq> []"
  proof
    assume e: "?m = []"
    have "?r = []" unfolding e by simp
    with r show False by blast
  qed
  have "?m = py_strip s @ rev (takeWhile is_space (rev ?m))"
    unfolding py_strip_def by (metis rev_append rev_rev_ident takeWhile_dropWhile_id)
  then have "hd ?m = hd (py_strip s)" using False by (metis hd_append2)
  with hd_dropWhile[OF m] l show ?thesis by simp
qed

lemma py_strip_id:
  assumes "s \<noteq> []" "\<not> is_space (hd s)" "\<not> is_space (last s)"
  shows "py_strip s = s"
proof -
  have a: "dropWhile is_space s = s" using assms(1,2) by (cases s) simp_all
  have "rev s \<noteq> []" "\<not> is_space (hd (rev s))" using assms(1,3) by (simp_all add: hd_rev)
  then have "dropWhile is_space (rev s) = rev s" by (cases "rev s") simp_all
  with a show ?thesis by (simp add: py_strip_def)
qed

section \<open>The validator: refusal and denylist\<close>

lemma reject_neq [simp]:
  "reject a = reject b \<longleftrightarrow> a = b" "reject a \<noteq> accept" "accept \<noteq> reject a"
  "reject a \<noteq> Inl x" "accept \<noteq> Inl x"
  by (auto simp: reject_def accept_def)

lemma validate_refusal:
  assumes "py_startswith ''--'' (py_strip sql)"
  shows "validate_sql e sql kt = reject (refusal_msg (first_line_of (py_strip sql)))"
proof -
  from assms have ne: "py_strip sql \<noteq> []" by (auto simp: py_startswith_def)
  from py_splitlines_first[OF ne] obtain rest where
    "py_splitlines (py_strip sql) = first_line_of (py_strip sql) # rest" by blast
  with assms ne show ?thesis by (simp add: validate_sql_def Let_def)
qed

lemma validate_not_forbidden:
  assumes "py_startswith ''--'' (py_strip sql) \<or> blocklist_scan (blocklist_order e) (py_upper (py_strip sql)) = None"
  shows "validate_sql e sql kt \<noteq> reject (forbidden_msg K)"
proof (cases "py_startswith ''--'' (py_strip sql)")
  case True
  show ?thesis
    by (simp add: validate_refusal[OF True] refusal_msg_def forbidden_msg_def)
next
  case False
  with assms have n: "blocklist_scan (blocklist_order e) (py_upper (py_strip sql)) = None" by simp
  show ?thesis using False n
    by (simp add: validate_sql_def Let_def forbidden_msg_def unknown_tables_msg_def
          split: list.splits option.splits)
qed

text \<open>
  C7. An input that, once trimmed, begins with the comment prefix is rejected with the
  refusal message, which carries the first line without its leading dashes and blanks;
  for \<^verbatim>\<open>-- Cannot answer: <reason>\<close> on one line that is \<^verbatim>\<open>Cannot answer: <reason>\<close>, word
  for word. The message is none of the denylist or unknown-table messages, and it is
  the answer whatever denylisted words the input holds and whatever allow-list is given:
  the refusal test comes first.
\<close>

theorem refusal_reported_first:
  assumes "is_ascii sql" and "py_startswith ''--'' (py_strip sql)"
  shows "validate_sql e sql kt = reject (refusal_msg (first_line_of (py_strip sql))) \<and>
         (\<forall>K. validate_sql e sql kt \<noteq> reject (forbidden_msg K)) \<and>
         (\<forall>ts. validate_sql e sql kt \<noteq> reject (unknown_tables_msg ts)) \<and>
         (\<forall>reason. py_strip sql = ''-- Cannot answer: '' @ reason \<and> list_all (\<lambda>c. \<not> is_linebreak c) reason \<longrightarrow>
            validate_sql e sql kt =
              reject (''The AI could not generate a query for that question: Cannot answer: '' @ reason))"
proof -
  note v = validate_refusal[OF assms(2), of e kt]
  have a: "\<forall>K. validate_sql e sql kt \<noteq> reject (forbidden_msg K)"
    by (simp add: v refusal_msg_def forbidden_msg_def)
  have b: "\<forall>ts. validate_sql e sql kt \<noteq> reject (unknown_tables_msg ts)"
    by (simp add: v refusal_msg_def unknown_tables_msg_def)
  have c: "validate_sql e sql kt =
      reject (''The AI could not generate a query for that question: Cannot answer: '' @ reason)"
    if r: "py_strip sql = ''-- Cannot answer: '' @ reason" "list_all (\<lambda>c. \<not> is_linebreak c) reason"
    for reason
  proof -
    have fl: "first_line_of (py_strip sql) = ''-- Cannot answer: '' @ reason"
      using r(2) by (simp add: r(1) first_line_of_def is_linebreak_def list_all_iff)
    have ls: "py_lstrip_chars ''- '' (''-- Cannot answer: '' @ reason) = ''Cannot answer: '' @ reason"
      by (simp add: py_lstrip_chars_def)
    from py_strip_ends[of sql] have "\<not> is_space (last (''-- Cannot answer: '' @ reason))"
      by (simp add: r(1))
    then have "\<not> is_space (last (''Cannot answer: '' @ reason))"
      by (cases "reason = []") simp_all
    then have st: "py_strip (''Cannot answer: '' @ reason) = ''Cannot answer: '' @ reason"
      by (intro py_strip_id) (simp_all add: is_space_def)
    show ?thesis unfolding v fl refusal_msg_def ls st by simp
  qed
  from v a b c show ?thesis by blast
qed

lemma refusal_example_facts:
  "is_ascii ''  -- Cannot answer: no table to DROP or DELETE from''"
  "py_startswith ''--'' (py_strip ''  -- Cannot answer: no table to DROP or DELETE from'')"
  "py_strip ''  -- Cannot answer: no table to DROP or DELETE from'' = ''-- Cannot answer: '' @ ''no table to DROP or DELETE from''"
  "list_all (\<lambda>c. \<not> is_linebreak c) ''no table to DROP or DELETE from''"
  "has_denylisted_word ''  -- Cannot answer: no table to DROP or DELETE from''"
  by code_simp+

theorem refusal_reported_first_witness:
  "has_denylisted_word ''  -- Cannot answer: no table to DROP or DELETE from'' \<and>
   validate_sql example_env ''  -- Cannot answer: no table to DROP or DELETE from'' (Some [''users'']) =
     reject ''The AI could not generate a query for that question: Cannot answer: no table to DROP or DELETE from''"
proof -
  from refusal_reported_first[OF refusal_example_facts(1,2), of example_env "Some [''users'']"]
  have "\<forall>reason. py_strip ''  -- Cannot answer: no table to DROP or DELETE from'' = ''-- Cannot answer: '' @ reason \<and>
          list_all (\<lambda>c. \<not> is_linebreak c) reason \<longrightarrow>
          validate_sql example_env ''  -- Cannot answer: no table to DROP or DELETE from'' (Some [''users'']) =
            reject (''The AI could not generate a query for that question: Cannot answer: '' @ reason)"
    by blast
  from this[rule_format, OF conjI[OF refusal_example_facts(3,4)]] refusal_example_facts(5)
  show ?thesis by simp
qed

text \<open>
  C1. A text in which a denylisted keyword stands alone as a word, in any letter case, is
  rejected: with the message naming such a keyword, unless the text is a refusal comment,
  which is rejected as that. A text in which no denylisted keyword stands alone (the
  keywords occur at most inside longer words such as \<^verbatim>\<open>deleted_at\<close>) passes the denylist
  scan, and whatever the validator then answers is not a denylist rejection.
\<close>

theorem denylist_standalone_words:
  assumes "is_ascii sql" and "set (blocklist_order e) = set BLOCKLIST"
  shows "(has_denylisted_word sql \<longrightarrow>
            (\<exists>msg. validate_sql e sql kt = reject msg) \<and>
            (\<not> py_startswith ''--'' (py_strip sql) \<longrightarrow>
               (\<exists>K \<in> set BLOCKLIST. K \<in> py_upper ` set (words_of sql) \<and>
                   validate_sql e sql kt = reject (forbidden_msg K)))) \<and>
         (\<not> has_denylisted_word sql \<longrightarrow>
            blocklist_scan (blocklist_order e) (py_upper (py_strip sql)) = None \<and>
            (\<forall>K. validate_sql e sql kt \<noteq> reject (forbidden_msg K)))"
proof (cases "has_denylisted_word sql")
  case True
  then have "words_of (py_strip sql) \<noteq> []"
    by (auto simp: has_denylisted_word_def list_ex_iff words_of_strip)
  then have ne: "py_strip sql \<noteq> []" by auto
  from True blocklist_scan_None[OF assms(2), of sql] obtain K where
    K: "blocklist_scan (blocklist_order e) (py_upper (py_strip sql)) = Some K" by auto
  note Kin = blocklist_scan_Some[OF assms(2) K]
  have nr: "validate_sql e sql kt = reject (forbidden_msg K)" if "\<not> py_startswith ''--'' (py_strip sql)"
    using that ne K by (simp add: validate_sql_def Let_def)
  have "\<exists>msg. validate_sql e sql kt = reject msg"
    using nr validate_refusal[of sql e kt] by (cases "py_startswith ''--'' (py_strip sql)") auto
  with nr Kin True show ?thesis by auto
next
  case False
  with blocklist_scan_None[OF assms(2), of sql]
  have n: "blocklist_scan (blocklist_order e) (py_upper (py_strip sql)) = None" by simp
  with validate_not_forbidden[of sql e kt] False show ?thesis by simp
qed

lemma denylist_example_facts:
  "is_ascii ''SELECT deleted_at, created FROM updates''"
  "\<not> has_denylisted_word ''SELECT deleted_at, created FROM updates''"
  "is_ascii ''SELECT 1; drop table users''"
  "has_denylisted_word ''SELECT 1; drop table users''"
  "\<not> py_startswith ''--'' (py_strip ''SELECT 1; drop table users'')"
  "set (blocklist_order example_env) = set BLOCKLIST"
  by code_simp+

theorem denylist_standalone_words_witness:
  "(\<exists>K \<in> set BLOCKLIST. validate_sql example_env ''SELECT 1; drop table users'' None = reject (forbidden_msg K)) \<and>
   blocklist_scan BLOCKLIST (py_upper (py_strip ''SELECT deleted_at, created FROM updates'')) = None"
  using denylist_standalone_words[OF denylist_example_facts(3,6), of None]
    denylist_standalone_words[OF denylist_example_facts(1,6), of None]
    denylist_example_facts(2,4,5)
  by (auto simp: example_env_def)

section \<open>Table names\<close>

lemma py_split_nonempty [simp]: "py_split sep s \<noteq> []"
  by (induction s) (simp_all split: list.splits)

lemma py_split_single: "sep \<notin> set s \<Longrightarrow> py_split sep s = [s]"
  by (induction s) auto

lemma py_split_many: "sep \<in> set s \<Longrightarrow> \<exists>x y ys. py_split sep s = x # y # ys"
proof (induction s)
  case Nil
  then show ?case by simp
next
  case (Cons c cs)
  show ?case
  proof (cases "c = sep")
    case True
    then show ?thesis by (cases "py_split sep cs") simp_all
  next
    case False
    with Cons.prems have "sep \<in> set cs" by simp
    from Cons.IH[OF this] False show ?thesis by auto
  qed
qed

lemma last_py_split: "last (py_split sep s) = rev (takeWhile (\<lambda>c. c \<noteq> sep) (rev s))"
proof (induction s)
  case Nil
  then show ?case by simp
next
  case (Cons c cs)
  show ?case
  proof (cases "c = sep")
    case True
    then show ?thesis using Cons.IH by (simp add: takeWhile_tail)
  next
    case False
    show ?thesis
    proof (cases "sep \<in> set cs")
      case True
      from py_split_many[OF True] obtain x y ys where p: "py_split sep cs = x # y # ys" by blast
      have "takeWhile (\<lambda>c. c \<noteq> sep) (rev cs @ [c]) = takeWhile (\<lambda>c. c \<noteq> sep) (rev cs)"
        using True by (intro takeWhile_append1[of sep]) simp_all
      with False p Cons.IH show ?thesis by simp
    next
      case f: False
      have tw: "takeWhile (\<lambda>c. c \<noteq> sep) (rev cs @ [c]) = rev cs @ [c]"
        using f False by (intro takeWhile_eq_all_conv[THEN iffD2]) auto
      from f False show ?thesis by (simp add: py_split_single tw)
    qed
  qed
qed

lemma lower_upper [simp]: "py_lower_char (py_upper_char c) = py_lower_char c"
  by (simp add: py_lower_char_def py_upper_char_def lowers_def uppers_def)

lemma upper_quote [simp]: "py_upper_char c = CHR 0x22 \<longleftrightarrow> c = CHR 0x22"
  by (simp add: py_upper_char_def lowers_def uppers_def)

lemma lower_dot [simp]: "py_lower_char c = CHR ''.'' \<longleftrightarrow> c = CHR ''.''"
  by (simp add: py_lower_char_def lowers_def uppers_def)

lemma lower_fixed [simp]:
  "py_lower_char CHR ''.'' = CHR ''.''" "py_lower_char CHR 0x22 = CHR 0x22"
  by (simp_all add: py_lower_char_def lowers_def uppers_def)

lemma py_lower_upper: "py_lower (py_upper s) = py_lower s"
  by (simp add: py_lower_def py_upper_def)

lemma strip_quotes_upper:
  "py_strip_chars [CHR 0x22] (py_upper g) = py_upper (py_strip_chars [CHR 0x22] g)"
  by (simp add: py_strip_chars_def py_upper_def dropWhile_map rev_map comp_def)

lemma table_of_upper: "table_of (py_upper g) = table_of g"
  by (simp add: table_of_def strip_quotes_upper py_lower_upper)

lemma table_of_last_segment:
  "table_of g = rev (takeWhile (\<lambda>c. c \<noteq> CHR ''.'') (rev (py_lower (py_strip_chars [CHR 0x22] g))))"
  by (simp add: table_of_def last_py_split)

lemma py_strip_chars_quote:
  "py_strip_chars [CHR 0x22] s = rev (dropWhile (\<lambda>c. c = CHR 0x22) (rev (dropWhile (\<lambda>c. c = CHR 0x22) s)))"
  by (simp add: py_strip_chars_def)

lemma table_of_unquoted:
  assumes "CHR 0x22 \<notin> set schema" "CHR 0x22 \<notin> set name" "CHR ''.'' \<notin> set name"
  shows "table_of (schema @ ''.'' @ name) = py_lower name"
proof -
  have d: "dropWhile (\<lambda>c. c = CHR 0x22) s = s" if "CHR 0x22 \<notin> set s" for s
    using that by (cases s) auto
  have s: "py_strip_chars [CHR 0x22] (schema @ CHR ''.'' # name) = schema @ CHR ''.'' # name"
    using assms(1,2) by (simp add: py_strip_chars_quote d)
  have "takeWhile (\<lambda>c. c \<noteq> CHR ''.'') (rev (map py_lower_char name) @ CHR ''.'' # rev (map py_lower_char schema))
          = rev (map py_lower_char name)"
    using assms(3) by (subst takeWhile_tail) (auto simp: takeWhile_eq_all_conv[THEN iffD2])
  then show ?thesis by (simp add: table_of_last_segment s py_lower_def)
qed

lemma table_of_quoted:
  assumes "name \<noteq> []" "CHR 0x22 \<notin> set name" "CHR ''.'' \<notin> set name"
  shows "table_of (quoted_ref schema name) = CHR 0x22 # py_lower name"
proof -
  let ?q = "\<lambda>c. c = CHR 0x22"
  define pre where "pre = dropWhile ?q ([CHR 0x22] @ schema @ [CHR 0x22])"
  have a: "dropWhile ?q (quoted_ref schema name) = pre @ CHR ''.'' # CHR 0x22 # name @ [CHR 0x22]"
  proof -
    have "dropWhile ?q (([CHR 0x22] @ schema @ [CHR 0x22]) @ CHR ''.'' # (CHR 0x22 # name @ [CHR 0x22]))
        = dropWhile ?q ([CHR 0x22] @ schema @ [CHR 0x22]) @ CHR ''.'' # (CHR 0x22 # name @ [CHR 0x22])"
      by (rule dropWhile_append3) simp
    then show ?thesis by (simp add: quoted_ref_def pre_def)
  qed
  have hn: "\<not> ?q (hd (rev name))" by (metis assms(1,2) hd_rev last_in_set)
  have b: "dropWhile ?q (rev name @ CHR 0x22 # CHR ''.'' # rev pre) = rev name @ CHR 0x22 # CHR ''.'' # rev pre"
    using assms(1) hn by (cases "rev name") simp_all
  have s: "py_strip_chars [CHR 0x22] (quoted_ref schema name) = pre @ CHR ''.'' # CHR 0x22 # name"
    by (simp add: py_strip_chars_quote a b)
  have "takeWhile (\<lambda>c. c \<noteq> CHR ''.'') (rev (map py_lower_char name) @ CHR 0x22 # CHR ''.'' # rev (map py_lower_char pre))
          = rev (map py_lower_char name) @ [CHR 0x22]"
  proof -
    have "takeWhile (\<lambda>c. c \<noteq> CHR ''.'') ((rev (map py_lower_char name) @ [CHR 0x22]) @ CHR ''.'' # rev (map py_lower_char pre))
          = takeWhile (\<lambda>c. c \<noteq> CHR ''.'') (rev (map py_lower_char name) @ [CHR 0x22])"
      by (rule takeWhile_tail) simp
    also have "\<dots> = rev (map py_lower_char name) @ [CHR 0x22]"
      using assms(3) by (auto simp: takeWhile_eq_all_conv[THEN iffD2])
    finally show ?thesis by simp
  qed
  then show ?thesis by (simp add: table_of_last_segment s py_lower_def)
qed

lemma sort_unknown:
  "sort (unknown_tables kt sql) =
     sorted_list_of_set (set (map table_of (from_pattern_finditer sql)) - set (map py_lower kt))"
proof -
  have "unknown_tables kt sql = remdups (filter (\<lambda>t. t \<notin> set (map py_lower kt)) (map table_of (from_pattern_finditer sql)))"
    by (simp add: unknown_tables_def referenced_tables_def remdups_filter)
  moreover have "set (filter (\<lambda>t. t \<notin> set (map py_lower kt)) (map table_of (from_pattern_finditer sql)))
      = set (map table_of (from_pattern_finditer sql)) - set (map py_lower kt)" by auto
  ultimately show ?thesis by (metis sorted_list_of_set_sort_remdups)
qed

lemma set_unknown:
  "set (unknown_tables kt sql) = set (map table_of (from_pattern_finditer sql)) - set (map py_lower kt)"
  by (auto simp: unknown_tables_def referenced_tables_def)

lemma unknown_tables_upper: "unknown_tables (map py_upper kt) sql = unknown_tables kt sql"
  by (simp add: unknown_tables_def py_lower_upper comp_def)

lemma validate_allow_list:
  assumes "validate_sql e sql None = accept" "kt \<noteq> []"
  shows "validate_sql e sql (Some kt) =
     (if unknown_tables kt (py_strip sql) \<noteq> [] then reject (unknown_tables_msg (unknown_tables kt (py_strip sql)))
      else accept)"
  using assms
  by (simp add: validate_sql_def Let_def accept_def reject_def split: if_splits list.splits option.splits)


lemma lower_quote [simp]: "py_lower_char c = CHR 0x22 \<longleftrightarrow> c = CHR 0x22"
  by (simp add: py_lower_char_def lowers_def uppers_def)

lemma lower_is_word [simp]: "is_word (py_lower_char c) = is_word c"
  by (simp add: is_word_def py_lower_char_def lowers_def uppers_def digits_def)

lemma ref_not_space: "is_ref_char c \<Longrightarrow> \<not> is_space c"
  by (auto simp: is_ref_char_def is_space_def is_word_def lowers_def uppers_def digits_def)

lemma keyword_shape:
  assumes "py_lower kw \<in> {''from'', ''join''}"
  shows "length kw = 4 \<and> is_word (hd kw) \<and> is_word (last kw) \<and>
         (ci_prefix ''FROM'' (kw @ r) \<or> ci_prefix ''JOIN'' (kw @ r))"
proof -
  from assms obtain a b c d where k: "kw = [a, b, c, d]"
    by (auto simp: py_lower_def map_eq_Cons_conv)
  have w: "is_word (py_lower_char a)" "is_word (py_lower_char d)"
    using assms by (auto simp: k py_lower_def is_word_def lowers_def)
  have "map py_lower_char ''FROM'' = ''from''" "map py_lower_char ''JOIN'' = ''join''"
    by (simp_all add: py_lower_char_def lowers_def uppers_def)
  with assms w show ?thesis by (auto simp: k ci_prefix_def py_lower_def)
qed

lemma match_alt_decomp:
  assumes "match_alt lit prev s = Some (g, n)" "length lit = 4" "is_word (py_lower_char (hd lit))"
  shows "\<not> is_word_opt prev \<and> n = 4 + length (takeWhile is_space (drop 4 s)) + length g \<and>
         s = take 4 s @ takeWhile is_space (drop 4 s) @ g @ drop n s \<and>
         py_lower (take 4 s) = py_lower lit \<and>
         takeWhile is_space (drop 4 s) \<noteq> [] \<and> list_all is_space (takeWhile is_space (drop 4 s)) \<and>
         g \<noteq> [] \<and> list_all is_ref_char g \<and> (drop n s = [] \<or> \<not> is_ref_char (hd (drop n s)))"
proof -
  let ?r1 = "drop 4 s"
  let ?ws = "takeWhile is_space ?r1"
  let ?r2 = "dropWhile is_space ?r1"
  from assms(1,2) have wb: "word_boundary prev (head_opt s)" and ci: "ci_prefix lit s"
    and ws: "?ws \<noteq> []" and g: "g = takeWhile is_ref_char ?r2" "g \<noteq> []"
    and n: "n = 4 + length ?ws + length g"
    by (auto simp: match_alt_def Let_def split: if_splits)
  from ci assms(2) have pl: "py_lower (take 4 s) = py_lower lit" by (simp add: ci_prefix_def py_lower_def)
  from ws have "s \<noteq> []" by auto
  then obtain c cs where s: "s = c # cs" by (cases s) auto
  from assms(2) obtain l ls where lit: "lit = l # ls" by (cases lit) auto
  from pl have "py_lower_char c = py_lower_char l" by (simp add: s lit py_lower_def)
  with assms(3) have "is_word c" by (simp add: lit) (metis lower_is_word)
  with wb have np: "\<not> is_word_opt prev" by (simp add: word_boundary_def head_opt_def s)
  have r2: "?r2 = g @ dropWhile is_ref_char ?r2" by (simp add: g)
  have dn: "drop n s = dropWhile is_ref_char ?r2"
  proof -
    have "drop n s = drop (length g) (drop (length ?ws) ?r1)" by (simp add: n add.commute add.left_commute)
    also have "drop (length ?ws) ?r1 = ?r2" by (metis append_eq_conv_conj takeWhile_dropWhile_id)
    also have "drop (length g) ?r2 = dropWhile is_ref_char ?r2" by (metis append_eq_conv_conj r2)
    finally show ?thesis .
  qed
  have "s = take 4 s @ ?ws @ ?r2" by simp
  with r2 dn have dec: "s = take 4 s @ ?ws @ g @ drop n s" by metis
  have mx: "drop n s = [] \<or> \<not> is_ref_char (hd (drop n s))"
    unfolding dn by (metis hd_dropWhile)
  have "list_all is_space ?ws" by (simp add: list_all_iff) (metis set_takeWhileD)
  moreover have "list_all is_ref_char g" unfolding g by (simp add: list_all_iff) (metis set_takeWhileD)
  ultimately show ?thesis using np n dec pl ws g(2) mx by blast
qed

lemma match_alt_found:
  assumes "\<not> is_word_opt prev" "length kw = 4" "is_word (hd kw)" "ci_prefix lit (kw @ ws @ tok @ rest)" "length lit = 4"
    and "ws \<noteq> []" "list_all is_space ws" "tok \<noteq> []" "list_all is_ref_char tok"
    and "rest = [] \<or> \<not> is_ref_char (hd rest)"
  shows "match_alt lit prev (kw @ ws @ tok @ rest) = Some (tok, length kw + length ws + length tok)"
proof -
  from assms(2) obtain k ks where kw: "kw = k # ks" by (cases kw) auto
  with assms(1,3) have wb: "word_boundary prev (head_opt (kw @ ws @ tok @ rest))"
    by (simp add: word_boundary_def head_opt_def)
  obtain t ts where tok: "tok = t # ts" using assms(8) by (cases tok) auto
  with assms(9) have nt: "\<not> is_space t" by (simp add: ref_not_space)
  have tw: "takeWhile is_space (ws @ tok @ rest) = ws"
    using assms(7) nt by (simp add: tok list_all_iff takeWhile_append2)
  have dw: "dropWhile is_space (ws @ tok @ rest) = tok @ rest"
    using assms(7) nt by (simp add: tok list_all_iff dropWhile_append2)
  have tr: "takeWhile is_ref_char (tok @ rest) = tok"
  proof (cases rest)
    case Nil
    then show ?thesis using assms(9) by (simp add: list_all_iff)
  next
    case (Cons r rs)
    with assms(10) have "\<not> is_ref_char r" by simp
    then show ?thesis using assms(9) by (simp add: Cons list_all_iff takeWhile_append2)
  qed
  show ?thesis
    using wb assms(4) assms(6) assms(8)
    by (simp add: match_alt_def Let_def assms(2) assms(5) tw dw tr)
qed

lemma match_alt_same:
  assumes "match_alt lit prev s = Some m" "match_alt lit' prev s = Some m'" "length lit = length lit'"
  shows "m = m'"
  using assms by (auto simp: match_alt_def Let_def split: if_splits)

lemma match_from_pattern_found:
  assumes "\<not> is_word_opt prev" "py_lower kw \<in> {''from'', ''join''}"
    and "ws \<noteq> []" "list_all is_space ws" "tok \<noteq> []" "list_all is_ref_char tok"
    and "rest = [] \<or> \<not> is_ref_char (hd rest)"
  shows "match_from_pattern prev (kw @ ws @ tok @ rest) = Some (tok, length kw + length ws + length tok)"
proof -
  note k = keyword_shape[OF assms(2), of "ws @ tok @ rest"]
  from k have l: "length kw = 4" and h: "is_word (hd kw)" by simp_all
  from k consider "ci_prefix ''FROM'' (kw @ ws @ tok @ rest)" | "ci_prefix ''JOIN'' (kw @ ws @ tok @ rest)"
    by blast
  then show ?thesis
  proof cases
    case 1
    from match_alt_found[OF assms(1) l h 1 _ assms(3-7)] show ?thesis
      by (simp add: match_from_pattern_def)
  next
    case 2
    from match_alt_found[OF assms(1) l h 2 _ assms(3-7)]
    have j: "match_alt ''JOIN'' prev (kw @ ws @ tok @ rest) = Some (tok, length kw + length ws + length tok)"
      by simp
    show ?thesis
    proof (cases "match_alt ''FROM'' prev (kw @ ws @ tok @ rest)")
      case None
      with j show ?thesis by (simp add: match_from_pattern_def)
    next
      case (Some m)
      from match_alt_same[OF Some j] Some show ?thesis by (simp add: match_from_pattern_def)
    qed
  qed
qed

lemma match_from_pattern_decomp:
  assumes "match_from_pattern prev s = Some (g, n)"
  shows "\<not> is_word_opt prev \<and>
         (\<exists>kw ws rest. s = kw @ ws @ g @ rest \<and> py_lower kw \<in> {''from'', ''join''} \<and>
            ws \<noteq> [] \<and> list_all is_space ws \<and> n = length kw + length ws + length g \<and>
            (rest = [] \<or> \<not> is_ref_char (hd rest))) \<and>
         g \<noteq> [] \<and> list_all is_ref_char g"
proof -
  have lw: "map py_lower_char ''FROM'' = ''from''" "map py_lower_char ''JOIN'' = ''join''"
    by (simp_all add: py_lower_char_def lowers_def uppers_def)
  have hw: "is_word (py_lower_char (hd ''FROM''))" "is_word (py_lower_char (hd ''JOIN''))"
    by (simp_all add: is_word_def py_lower_char_def lowers_def uppers_def digits_def)
  from assms obtain lit where lit: "lit = ''FROM'' \<or> lit = ''JOIN''" and m: "match_alt lit prev s = Some (g, n)"
    by (auto simp: match_from_pattern_def split: option.splits)
  from lit have l4: "length lit = 4" and h: "is_word (py_lower_char (hd lit))" and pl: "py_lower lit \<in> {''from'', ''join''}"
    using hw lw by (auto simp: py_lower_def)
  note d = match_alt_decomp[OF m l4 h]
  let ?kw = "take 4 s" and ?ws = "takeWhile is_space (drop 4 s)" and ?rest = "drop n s"
  from d have "py_lower ?kw = py_lower lit" by blast
  then have "length (py_lower ?kw) = length (py_lower lit)" by simp
  then have l: "length ?kw = 4" unfolding py_lower_def length_map using l4 by simp
  from d have e: "s = ?kw @ ?ws @ g @ ?rest" "?ws \<noteq> []" "list_all is_space ?ws"
    "n = 4 + length ?ws + length g" "?rest = [] \<or> \<not> is_ref_char (hd ?rest)"
    by blast+
  from e(4) l have n': "n = length ?kw + length ?ws + length g" by (simp only:)
  from pl \<open>py_lower ?kw = py_lower lit\<close> have pk: "py_lower ?kw \<in> {''from'', ''join''}" by (simp only:)
  from e(1,2,3,5) n' pk
  have "\<exists>kw ws rest. s = kw @ ws @ g @ rest \<and> py_lower kw \<in> {''from'', ''join''} \<and>
            ws \<noteq> [] \<and> list_all is_space ws \<and> n = length kw + length ws + length g \<and>
            (rest = [] \<or> \<not> is_ref_char (hd rest))" by blast
  with d show ?thesis by blast
qed

lemma finditer_step_found:
  assumes "\<not> is_word_opt prev" "py_lower kw \<in> {''from'', ''join''}"
    and "ws \<noteq> []" "list_all is_space ws" "tok \<noteq> []" "list_all is_ref_char tok"
    and "rest = [] \<or> \<not> is_ref_char (hd rest)"
  shows "from_pattern_finditer_from prev (kw @ ws @ tok @ rest) =
           tok # from_pattern_finditer_from (Some (last tok)) rest"
proof -
  from keyword_shape[OF assms(2), of "[]"] have "length kw = 4" by simp
  then obtain c ks where kw: "kw = c # ks" by (cases kw) auto
  have "drop (length kw + length ws + length tok - 1) (ks @ ws @ tok @ rest) = rest"
    by (simp add: kw)
  with match_from_pattern_found[OF assms] show ?thesis by (simp add: kw)
qed

lemma finditer_step_skip:
  assumes "is_word_opt prev \<or>
     \<not> (\<exists>kw ws r rest. c # cs = kw @ ws @ r # rest \<and> py_lower kw \<in> {''from'', ''join''} \<and>
            ws \<noteq> [] \<and> list_all is_space ws \<and> is_ref_char r)"
  shows "from_pattern_finditer_from prev (c # cs) = from_pattern_finditer_from (Some c) cs"
proof (cases "match_from_pattern prev (c # cs)")
  case None
  then show ?thesis by simp
next
  case (Some m)
  obtain g n where m: "m = (g, n)" by (cases m)
  from match_from_pattern_decomp[OF Some[unfolded m]]
  obtain kw ws rest where np: "\<not> is_word_opt prev" and d: "c # cs = kw @ ws @ g @ rest"
    "py_lower kw \<in> {''from'', ''join''}" "ws \<noteq> []" "list_all is_space ws" and g: "g \<noteq> []" "list_all is_ref_char g"
    by blast
  from g obtain r rs where gr: "g = r # rs" "is_ref_char r" by (cases g) auto
  with d have "c # cs = kw @ ws @ r # (rs @ rest)" by simp
  with d(2-4) gr(2) np assms show ?thesis by blast
qed

lemma table_of_bare:
  assumes "CHR 0x22 \<notin> set name" "CHR ''.'' \<notin> set name"
  shows "table_of name = py_lower name"
proof -
  have d: "dropWhile (\<lambda>c. c = CHR 0x22) s = s" if "CHR 0x22 \<notin> set s" for s
    using that by (cases s) auto
  have s: "py_strip_chars [CHR 0x22] name = name"
    using assms(1) by (simp add: py_strip_chars_quote d)
  have tw: "takeWhile (\<lambda>c. c \<noteq> CHR ''.'') (rev (map py_lower_char name)) = rev (map py_lower_char name)"
    using assms(2) by (auto simp: takeWhile_eq_all_conv[THEN iffD2])
  show ?thesis unfolding table_of_last_segment s py_lower_def tw by simp
qed

lemma py_strip_chars_quoted:
  assumes "name \<noteq> []" "CHR 0x22 \<notin> set name"
  shows "py_strip_chars [CHR 0x22] (CHR 0x22 # name @ [CHR 0x22]) = name"
proof -
  let ?q = "\<lambda>c. c = CHR 0x22"
  have d: "dropWhile ?q s = s" if "CHR 0x22 \<notin> set s" for s
    using that by (cases s) auto
  have a: "dropWhile ?q (name @ [CHR 0x22]) = name @ [CHR 0x22]"
    using assms by (cases name) auto
  have b: "dropWhile ?q (rev name) = rev name" using assms(2) by (simp add: d)
  show ?thesis by (simp add: py_strip_chars_quote a b)
qed

lemma table_of_in_quotes:
  assumes "name \<noteq> []" "CHR 0x22 \<notin> set name" "CHR ''.'' \<notin> set name"
  shows "table_of (CHR 0x22 # name @ [CHR 0x22]) = py_lower name"
proof -
  have tw: "takeWhile (\<lambda>c. c \<noteq> CHR ''.'') (rev (map py_lower_char name)) = rev (map py_lower_char name)"
    using assms(3) by (auto simp: takeWhile_eq_all_conv[THEN iffD2])
  show ?thesis unfolding table_of_last_segment py_strip_chars_quoted[OF assms(1,2)] py_lower_def tw by simp
qed

text \<open>
  C3, as the code has it. The tables of a query are not what is checked: the check reads
  the text for the words FROM and JOIN and takes what follows each of them. Take a text
  that the validator accepts without an allow-list (a single SELECT statement) and a
  non-empty allow-list. The checked names are the references found by the scan, each
  with its outer double quotes removed, in lower case, and cut after its last dot. If
  some checked name is not among the lower-cased names of the list, the text is rejected
  and the message lists exactly the set of these names, in sorted order; otherwise it is
  accepted. The letter case of the allow-list and of a reference does not matter; a name
  without quotes and dots, bare or in double quotes or behind an unquoted schema prefix,
  stands for itself in lower case. The scan is fixed by three equations: the empty text
  has no reference; where FROM or JOIN, in any letter case and not preceded by a word
  character, is followed by whitespace and then by a longest run \<open>tok\<close> of word characters,
  quotes and dots, \<open>tok\<close> is a reference and the scan goes on behind it; at any other
  place the scan moves one character on. So a table after a comma of a FROM list is
  not checked, and a column after the FROM of \<^verbatim>\<open>EXTRACT(YEAR FROM col)\<close> is.
\<close>

theorem unknown_tables_named:
  assumes "is_ascii sql" and "list_all is_ascii kt"
    and "validate_sql e sql None = accept" and "kt \<noteq> []"
  shows "(set (map table_of (from_pattern_finditer_from None (py_strip sql))) - set (map py_lower kt) \<noteq> {} \<longrightarrow>
            validate_sql e sql (Some kt) =
              reject (''Query references unknown table(s): '' @ py_join '', ''
                (sorted_list_of_set
                   (set (map table_of (from_pattern_finditer_from None (py_strip sql))) - set (map py_lower kt))))) \<and>
         (set (map table_of (from_pattern_finditer_from None (py_strip sql))) - set (map py_lower kt) = {} \<longrightarrow>
            validate_sql e sql (Some kt) = accept) \<and>
         validate_sql e sql (Some (map py_upper kt)) = validate_sql e sql (Some kt) \<and>
         (\<forall>g. table_of (py_upper g) = table_of g) \<and>
         (\<forall>name. CHR 0x22 \<notin> set name \<and> CHR ''.'' \<notin> set name \<longrightarrow>
            table_of name = py_lower name \<and>
            (name \<noteq> [] \<longrightarrow> table_of ([CHR 0x22] @ name @ [CHR 0x22]) = py_lower name) \<and>
            (\<forall>schema. CHR 0x22 \<notin> set schema \<longrightarrow> table_of (schema @ ''.'' @ name) = py_lower name)) \<and>
         (\<forall>prev. from_pattern_finditer_from prev [] = []) \<and>
         (\<forall>prev kw ws tok rest.
            \<not> is_word_opt prev \<and> py_lower kw \<in> {''from'', ''join''} \<and>
            ws \<noteq> [] \<and> list_all is_space ws \<and> tok \<noteq> [] \<and> list_all is_ref_char tok \<and>
            (rest = [] \<or> \<not> is_ref_char (hd rest)) \<longrightarrow>
              from_pattern_finditer_from prev (kw @ ws @ tok @ rest) =
                tok # from_pattern_finditer_from (Some (last tok)) rest) \<and>
         (\<forall>prev c cs.
            is_word_opt prev \<or>
            \<not> (\<exists>kw ws r rest. c # cs = kw @ ws @ r # rest \<and> py_lower kw \<in> {''from'', ''join''} \<and>
                   ws \<noteq> [] \<and> list_all is_space ws \<and> is_ref_char r) \<longrightarrow>
              from_pattern_finditer_from prev (c # cs) = from_pattern_finditer_from (Some c) cs)"
proof -
  let ?refs = "set (map table_of (from_pattern_finditer_from None (py_strip sql))) - set (map py_lower kt)"
  note v = validate_allow_list[OF assms(3,4)]
  have su: "set (unknown_tables kt (py_strip sql)) = ?refs"
    by (simp add: set_unknown from_pattern_finditer_def)
  have so: "sort (unknown_tables kt (py_strip sql)) = sorted_list_of_set ?refs"
    by (simp add: sort_unknown from_pattern_finditer_def)
  have e: "unknown_tables kt (py_strip sql) = [] \<longleftrightarrow> ?refs = {}"
    using su by (metis set_empty)
  have a: "validate_sql e sql (Some kt) =
              reject (''Query references unknown table(s): '' @ py_join '', '' (sorted_list_of_set ?refs))"
    if "?refs \<noteq> {}"
    using that e by (simp add: v unknown_tables_msg_def so)
  have b: "validate_sql e sql (Some kt) = accept" if "?refs = {}"
    using that e by (simp add: v)
  have "map py_upper kt \<noteq> []" using assms(4) by simp
  from validate_allow_list[OF assms(3) this]
  have c: "validate_sql e sql (Some (map py_upper kt)) = validate_sql e sql (Some kt)"
    by (simp add: v unknown_tables_upper)
  have n: "table_of name = py_lower name \<and>
            (name \<noteq> [] \<longrightarrow> table_of ([CHR 0x22] @ name @ [CHR 0x22]) = py_lower name) \<and>
            (\<forall>schema. CHR 0x22 \<notin> set schema \<longrightarrow> table_of (schema @ ''.'' @ name) = py_lower name)"
    if "CHR 0x22 \<notin> set name \<and> CHR ''.'' \<notin> set name" for name
    using that table_of_bare[of name] table_of_in_quotes[of name] table_of_unquoted[of _ name]
    by simp
  have f: "from_pattern_finditer_from prev (kw @ ws @ tok @ rest) =
                tok # from_pattern_finditer_from (Some (last tok)) rest"
    if "\<not> is_word_opt prev \<and> py_lower kw \<in> {''from'', ''join''} \<and>
            ws \<noteq> [] \<and> list_all is_space ws \<and> tok \<noteq> [] \<and> list_all is_ref_char tok \<and>
            (rest = [] \<or> \<not> is_ref_char (hd rest))" for prev kw ws tok rest
    using that by (intro finditer_step_found) blast+
  have s: "from_pattern_finditer_from prev (c # cs) = from_pattern_finditer_from (Some c) cs"
    if "is_word_opt prev \<or>
            \<not> (\<exists>kw ws r rest. c # cs = kw @ ws @ r # rest \<and> py_lower kw \<in> {''from'', ''join''} \<and>
                   ws \<noteq> [] \<and> list_all is_space ws \<and> is_ref_char r)" for prev c cs
    using that by (rule finditer_step_skip)
  have z: "from_pattern_finditer_from prev [] = []" for prev by simp
  show ?thesis
    apply (intro conjI allI impI)
    subgoal by (rule a)
    subgoal by (rule b)
    subgoal by (rule c)
    subgoal by (rule table_of_upper)
    subgoal using n by blast
    subgoal using n by blast
    subgoal using n by blast
    subgoal by (rule z)
    subgoal by (rule f) blast
    subgoal by (rule s)
    done
qed

lemma unknown_example_facts:
  "is_ascii (''select * from '' @ [CHR 0x22] @ ''Secret'' @ [CHR 0x22] @ '' join public.Users JOIN logs'')"
  "list_all is_ascii [''USERS'', ''orders'']"
  "validate_sql example_env (''select * from '' @ [CHR 0x22] @ ''Secret'' @ [CHR 0x22] @ '' join public.Users JOIN logs'') None = accept"
  "sorted_list_of_set (set (map table_of (from_pattern_finditer_from None
       (py_strip (''select * from '' @ [CHR 0x22] @ ''Secret'' @ [CHR 0x22] @ '' join public.Users JOIN logs''))))
     - set (map py_lower [''USERS'', ''orders''])) = [''logs'', ''secret'']"
  "py_lower ''Secret'' = ''secret''"
  "from_pattern_finditer_from (Some CHR ''1'') '', t2'' = []"
  by code_simp+

theorem unknown_tables_named_witness:
  "validate_sql example_env
       (''select * from '' @ [CHR 0x22] @ ''Secret'' @ [CHR 0x22] @ '' join public.Users JOIN logs'')
       (Some [''USERS'', ''orders'']) =
     reject ''Query references unknown table(s): logs, secret'' \<and>
   table_of ([CHR 0x22] @ ''Secret'' @ [CHR 0x22]) = ''secret'' \<and>
   from_pattern_finditer_from None (''FroM'' @ [CHR 0x20, CHR 0x0A] @ ''t1'' @ '', t2'') = [''t1''] \<and>
   from_pattern_finditer_from (Some CHR ''x'') ''from t'' = from_pattern_finditer_from (Some CHR ''f'') ''rom t''"
proof -
  let ?sql = "''select * from '' @ [CHR 0x22] @ ''Secret'' @ [CHR 0x22] @ '' join public.Users JOIN logs''"
  have ne: "[''USERS'', ''orders''] \<noteq> []" by simp
  note t = unknown_tables_named[OF unknown_example_facts(1,2,3) ne]
  have s: "set (map table_of (from_pattern_finditer_from None (py_strip ?sql)))
     - set (map py_lower [''USERS'', ''orders'']) \<noteq> {}"
    using unknown_example_facts(4) by (metis list.distinct(1) sorted_list_of_set.sorted_key_list_of_set_empty)
  from t s
  have "validate_sql example_env ?sql (Some [''USERS'', ''orders'']) =
     reject (''Query references unknown table(s): '' @ py_join '', ''
       (sorted_list_of_set (set (map table_of (from_pattern_finditer_from None (py_strip ?sql)))
        - set (map py_lower [''USERS'', ''orders'']))))"
    by blast
  then have a: "validate_sql example_env ?sql (Some [''USERS'', ''orders'']) =
     reject ''Query references unknown table(s): logs, secret''"
    unfolding unknown_example_facts(4) by simp
  have q: "CHR 0x22 \<notin> set ''Secret'' \<and> CHR ''.'' \<notin> set ''Secret''" "''Secret'' \<noteq> []" by simp_all
  from t q have "table_of ([CHR 0x22] @ ''Secret'' @ [CHR 0x22]) = py_lower ''Secret''" by blast
  then have b: "table_of ([CHR 0x22] @ ''Secret'' @ [CHR 0x22]) = ''secret''"
    unfolding unknown_example_facts(5) .
  have m: "\<not> is_word_opt None \<and> py_lower ''FroM'' \<in> {''from'', ''join''} \<and>
      [CHR 0x20, CHR 0x0A] \<noteq> [] \<and> list_all is_space [CHR 0x20, CHR 0x0A] \<and> ''t1'' \<noteq> [] \<and>
      list_all is_ref_char ''t1'' \<and> ('', t2'' = [] \<or> \<not> is_ref_char (hd '', t2''))"
    by (simp add: py_lower_def py_lower_char_def lowers_def uppers_def is_space_def is_ref_char_def
          is_word_def digits_def)
  from t m have "from_pattern_finditer_from None (''FroM'' @ [CHR 0x20, CHR 0x0A] @ ''t1'' @ '', t2'') =
      ''t1'' # from_pattern_finditer_from (Some (last ''t1'')) '', t2''" by blast
  then have c: "from_pattern_finditer_from None (''FroM'' @ [CHR 0x20, CHR 0x0A] @ ''t1'' @ '', t2'') = [''t1'']"
    using unknown_example_facts(6) by simp
  have w: "is_word_opt (Some CHR ''x'')" by (simp add: is_word_def lowers_def)
  from t w have d: "from_pattern_finditer_from (Some CHR ''x'') (CHR ''f'' # ''rom t'') =
      from_pattern_finditer_from (Some CHR ''f'') ''rom t''" by blast
  from a b c d show ?thesis by simp
qed

text \<open>
  C3 as the specification has it fails both ways. The statement
  \<^verbatim>\<open>SELECT * FROM users, secrets\<close> reads the table \<^verbatim>\<open>secrets\<close>, which the allow-list
  \<^verbatim>\<open>users\<close> does not have, and it is accepted: only \<^verbatim>\<open>users\<close> follows FROM. The statement
  \<^verbatim>\<open>SELECT EXTRACT(YEAR FROM created_at) FROM users\<close> reads no table but \<^verbatim>\<open>users\<close>, and it
  is rejected for the unknown table \<^verbatim>\<open>created_at\<close>, which is a column.
\<close>

theorem comma_list_table_not_checked:
  "validate_sql example_env ''SELECT * FROM users, secrets'' (Some [''users'']) = accept \<and>
   validate_sql example_env ''SELECT EXTRACT(YEAR FROM created_at) FROM users'' (Some [''users'']) =
     reject ''Query references unknown table(s): created_at''"
  by code_simp

text \<open>
  C10. A reference with both parts in double quotes, \<^verbatim>\<open>"schema"."name"\<close>, loses only its
  outer quotes before it is split at the dot: the table name extracted is \<^verbatim>\<open>"name\<close>, with
  the quote in front. No allow-listed name without quotes equals it, so a query with such
  a reference is rejected for an unknown table, also when \<^verbatim>\<open>name\<close> is in the allow-list.
\<close>

theorem quoted_reference_rejected:
  assumes "is_ascii sql" and "validate_sql e sql None = accept"
    and "kt \<noteq> []" and "list_all (\<lambda>t. CHR 0x22 \<notin> set t) kt"
    and "name \<noteq> []" and "CHR 0x22 \<notin> set name" and "CHR ''.'' \<notin> set name"
    and "quoted_ref schema name \<in> set (from_pattern_finditer (py_strip sql))"
  shows "table_of (quoted_ref schema name) = CHR 0x22 # py_lower name \<and>
         CHR 0x22 # py_lower name \<notin> set (map py_lower kt) \<and>
         CHR 0x22 # py_lower name \<in> set (unknown_tables kt (py_strip sql)) \<and>
         validate_sql e sql (Some kt) = reject (unknown_tables_msg (unknown_tables kt (py_strip sql)))"
proof -
  note t = table_of_quoted[OF assms(5,6,7), of schema]
  have n: "CHR 0x22 # py_lower name \<notin> set (map py_lower kt)"
  proof
    assume "CHR 0x22 # py_lower name \<in> set (map py_lower kt)"
    then obtain x where x: "x \<in> set kt" "py_lower x = CHR 0x22 # py_lower name" by auto
    from x(2) have "CHR 0x22 \<in> set (py_lower x)" by simp
    then obtain c where "c \<in> set x" "py_lower_char c = CHR 0x22"
      unfolding py_lower_def by (metis imageE set_map)
    then have "CHR 0x22 \<in> set x" by simp
    with x(1) assms(4) show False by (simp add: list_all_iff)
  qed
  have "table_of (quoted_ref schema name) \<in> set (map table_of (from_pattern_finditer (py_strip sql)))"
    using assms(8) by simp
  with n have u: "CHR 0x22 # py_lower name \<in> set (unknown_tables kt (py_strip sql))"
    by (simp add: set_unknown t)
  then have "unknown_tables kt (py_strip sql) \<noteq> []" by auto
  with validate_allow_list[OF assms(2,3)] t n u show ?thesis by simp
qed

lemma quoted_example_facts:
  "is_ascii ''SELECT * FROM \"public\".\"users\"''"
  "validate_sql example_env ''SELECT * FROM \"public\".\"users\"'' None = accept"
  "list_all (\<lambda>t. CHR 0x22 \<notin> set t) [''users'']"
  "quoted_ref ''public'' ''users'' \<in> set (from_pattern_finditer (py_strip ''SELECT * FROM \"public\".\"users\"''))"
  "unknown_tables_msg (unknown_tables [''users''] (py_strip ''SELECT * FROM \"public\".\"users\"''))
     = ''Query references unknown table(s): \"users''"
  "validate_sql example_env ''SELECT * FROM users'' (Some [''users'']) = accept"
  by code_simp+

theorem quoted_reference_rejected_witness:
  "validate_sql example_env ''SELECT * FROM \"public\".\"users\"'' (Some [''users'']) =
     reject ''Query references unknown table(s): \"users'' \<and>
   validate_sql example_env ''SELECT * FROM users'' (Some [''users'']) = accept"
proof -
  have "[''users''] \<noteq> []" "''users'' \<noteq> []" "CHR 0x22 \<notin> set ''users''" "CHR ''.'' \<notin> set ''users''"
    by simp_all
  from quoted_reference_rejected[OF quoted_example_facts(1,2) this(1) quoted_example_facts(3) this(2,3,4) quoted_example_facts(4)]
  have "validate_sql example_env ''SELECT * FROM \"public\".\"users\"'' (Some [''users'']) =
     reject (unknown_tables_msg (unknown_tables [''users''] (py_strip ''SELECT * FROM \"public\".\"users\"'')))"
    by blast
  then show ?thesis unfolding quoted_example_facts(5) using quoted_example_facts(6) by simp
qed

end
